theory Spec2Isabelle
  imports Main "HOL-Library.AList"
begin

section \<open>JavaScript values\<close>

text \<open>
  The driver is written against \<open>any\<close>-typed records. A value is one of JavaScript's
  primitives, an array or a plain object. Numbers are exact decimal numbers: \<open>JNum n\<close> is
  the integer \<open>n\<close>, and \<open>JDec m s\<close> is the number \<open>m / 10\<^sup>s\<close>, which the parser builds
  in lowest terms and only when it is not an integer. The rounding of double precision,
  \<open>NaN\<close> and the infinities are not modelled, nor are \<open>Buffer\<close>, \<open>Date\<close> and function
  values.
  A plain object is the list of its own properties in insertion order (JavaScript's
  rule that integer-like keys come first is not modelled; no operation of the driver
  depends on the order of keys).
\<close>

datatype jsval =
    JUndefined
  | JNull
  | JBool bool
  | JNum int
  | JDec int nat
  | JStr string
  | JArr "jsval list"
  | JObj "(string \<times> jsval) list"

type_synonym obj = "(string \<times> jsval) list"

text \<open>\<open>typeof v\<close>.\<close>

fun typeof :: "jsval \<Rightarrow> string" where
  "typeof JUndefined = ''undefined''"
| "typeof JNull = ''object''"
| "typeof (JBool b) = ''boolean''"
| "typeof (JNum n) = ''number''"
| "typeof (JDec m s) = ''number''"
| "typeof (JStr s) = ''string''"
| "typeof (JArr xs) = ''object''"
| "typeof (JObj kvs) = ''object''"

text \<open>Truthiness, as \<open>if (v)\<close> and \<open>a && b\<close> test it.\<close>

fun truthy :: "jsval \<Rightarrow> bool" where
  "truthy JUndefined = False"
| "truthy JNull = False"
| "truthy (JBool b) = b"
| "truthy (JNum n) = (n \<noteq> 0)"
| "truthy (JDec m s) = (m \<noteq> 0)"
| "truthy (JStr s) = (s \<noteq> [])"
| "truthy (JArr xs) = True"
| "truthy (JObj kvs) = True"

text \<open>
  \<open>o[k]\<close> on an object: the own property, or \<open>undefined\<close>. Members inherited from
  \<open>Object.prototype\<close> are not modelled for reads.
\<close>

definition obj_get :: "obj \<Rightarrow> string \<Rightarrow> jsval" where
  "obj_get kvs k = (case map_of kvs k of None \<Rightarrow> JUndefined | Some v \<Rightarrow> v)"

text \<open>
  \<open>v[k]\<close> on any value the driver reads a property of. Only plain objects carry
  properties in this model; the index and \<open>length\<close> properties of arrays and strings are
  not modelled.
\<close>

fun js_get :: "jsval \<Rightarrow> string \<Rightarrow> jsval" where
  "js_get (JObj kvs) k = obj_get kvs k"
| "js_get v k = JUndefined"

text \<open>
  \<open>{...a, ...b}\<close>: the properties of \<open>b\<close> are assigned over those of \<open>a\<close>; an existing
  key keeps its position, a new key is appended.
\<close>

definition assign :: "obj \<Rightarrow> obj \<Rightarrow> obj" where
  "assign a b = fold (\<lambda>(k, v) acc. AList.update k v acc) b a"

subsection \<open>Strings\<close>

text \<open>Decimal digits of a natural number, and \<open>String(n)\<close> for an integer.\<close>

fun digit_char :: "nat \<Rightarrow> char" where
  "digit_char n = (''0123456789'' ! (n mod 10))"

function digits_of :: "nat \<Rightarrow> string" where
  "digits_of n = (if n < 10 then [digit_char n] else digits_of (n div 10) @ [digit_char n])"
  by pat_completeness auto
termination
  by (relation "measure id") auto

declare digits_of.simps [simp del]

definition show_int :: "int \<Rightarrow> string" where
  "show_int i = (if i < 0 then CHR ''-'' # digits_of (nat (- i)) else digits_of (nat i))"

text \<open>
  A decimal \<open>m / 10\<^sup>s\<close> in lowest terms of the scale: trailing zeros of \<open>m\<close> are
  cancelled against \<open>s\<close>.
\<close>

fun normalise :: "int \<Rightarrow> nat \<Rightarrow> int \<times> nat" where
  "normalise m 0 = (m, 0)"
| "normalise m (Suc s) = (if m mod 10 = 0 then normalise (m div 10) s else (m, Suc s))"

text \<open>
  \<open>String(x)\<close> for a number that is not an integer, from its digits \<open>ds\<close> and the
  position \<open>p\<close> of the decimal point after the first \<open>p\<close> digits: plain notation when
  \<open>-6 < p \<le> 21\<close>, exponent notation otherwise.
\<close>

definition js_fraction_text :: "int \<Rightarrow> nat \<Rightarrow> string" where
  "js_fraction_text m s =
     (let ds = digits_of (nat \<bar>m\<bar>);
          p = int (length ds) - int s;
          body =
            (if 0 < p \<and> p \<le> 21 then take (nat p) ds @ ''.'' @ drop (nat p) ds
             else if - 6 < p \<and> p \<le> 0 then ''0.'' @ replicate (nat (- p)) (CHR ''0'') @ ds
             else hd ds # (if length ds = 1 then [] else ''.'' @ tl ds) @ ''e''
                  @ (if p - 1 < 0 then ''-'' else ''+'') @ digits_of (nat \<bar>p - 1\<bar>))
      in if m < 0 then CHR ''-'' # body else body)"

definition show_dec :: "int \<Rightarrow> nat \<Rightarrow> string" where
  "show_dec m s =
     (case normalise m s of
        (n, 0) \<Rightarrow> show_int n
      | (n, Suc t) \<Rightarrow> js_fraction_text n (Suc t))"

text \<open>\<open>xs.join(sep)\<close> on strings.\<close>

fun join :: "string \<Rightarrow> string list \<Rightarrow> string" where
  "join sep [] = []"
| "join sep [x] = x"
| "join sep (x # y # ys) = x @ sep @ join sep (y # ys)"

text \<open>
  \<open>String(v)\<close>: an array is its elements joined by commas, with \<open>null\<close> and
  \<open>undefined\<close> elements as empty strings; a plain object is \<open>[object Object]\<close>. An
  integer is printed with all its digits, as the integers below \<open>10\<^sup>2\<^sup>1\<close> are.
\<close>

fun String :: "jsval \<Rightarrow> string" where
  "String JUndefined = ''undefined''"
| "String JNull = ''null''"
| "String (JBool b) = (if b then ''true'' else ''false'')"
| "String (JNum n) = show_int n"
| "String (JDec m s) = show_dec m s"
| "String (JStr s) = s"
| "String (JArr xs) =
     join '','' (map (\<lambda>x. if x = JNull \<or> x = JUndefined then [] else String x) xs)"
| "String (JObj kvs) = ''[object Object]''"

text \<open>\<open>s.toUpperCase()\<close>, on ASCII letters; every other character is kept.\<close>

definition upper_char :: "char \<Rightarrow> char" where
  "upper_char c =
     (case map_of (zip ''abcdefghijklmnopqrstuvwxyz'' ''ABCDEFGHIJKLMNOPQRSTUVWXYZ'') c of
        None \<Rightarrow> c | Some u \<Rightarrow> u)"

definition toUpperCase :: "string \<Rightarrow> string" where
  "toUpperCase s = map upper_char s"

text \<open>\<open>t.includes(s)\<close>: \<open>s\<close> occurs in \<open>t\<close> as a contiguous substring.\<close>

fun starts_with :: "string \<Rightarrow> string \<Rightarrow> bool" where
  "starts_with t [] = True"
| "starts_with [] (c # s) = False"
| "starts_with (d # t) (c # s) = (d = c \<and> starts_with t s)"

fun includes_str :: "string \<Rightarrow> string \<Rightarrow> bool" where
  "includes_str [] s = (s = [])"
| "includes_str (c # t) s = (starts_with (c # t) s \<or> includes_str t s)"

section \<open>The JSON codec\<close>

text \<open>
  \<open>JSON.stringify\<close> and \<open>JSON.parse\<close> belong to the platform, not to the driver. They
  are modelled on the value universe above: strings are byte strings, so a unicode
  escape above code 255 is rejected.
\<close>

subsection \<open>Printing\<close>

definition hex_char :: "nat \<Rightarrow> char" where
  "hex_char n = (''0123456789abcdef'' ! (n mod 16))"

definition escape_char :: "char \<Rightarrow> string" where
  "escape_char c =
     (if c = CHR 0x22 then [CHR 0x5C, CHR 0x22]
      else if c = CHR 0x5C then [CHR 0x5C, CHR 0x5C]
      else if c = CHR 0x08 then [CHR 0x5C, CHR ''b'']
      else if c = CHR 0x0C then [CHR 0x5C, CHR ''f'']
      else if c = CHR 0x0A then [CHR 0x5C, CHR ''n'']
      else if c = CHR 0x0D then [CHR 0x5C, CHR ''r'']
      else if c = CHR 0x09 then [CHR 0x5C, CHR ''t'']
      else if (of_char c :: nat) < 32
      then [CHR 0x5C, CHR ''u'', CHR ''0'', CHR ''0'', hex_char (of_char c div 16), hex_char (of_char c)]
      else [c])"

definition quote :: "string \<Rightarrow> string" where
  "quote s = CHR 0x22 # concat (map escape_char s) @ [CHR 0x22]"

fun json_text :: "jsval \<Rightarrow> string" where
  "json_text JUndefined = ''null''"
| "json_text JNull = ''null''"
| "json_text (JBool b) = (if b then ''true'' else ''false'')"
| "json_text (JNum n) = show_int n"
| "json_text (JDec m s) = show_dec m s"
| "json_text (JStr s) = quote s"
| "json_text (JArr xs) = ''['' @ join '','' (map json_text xs) @ '']''"
| "json_text (JObj kvs) =
     ''{'' @ join '','' (map (\<lambda>(k, v). quote k @ '':'' @ json_text v)
                           (filter (\<lambda>(k, v). v \<noteq> JUndefined) kvs)) @ ''}''"

text \<open>
  \<open>JSON.stringify(v)\<close>: \<open>undefined\<close> for \<open>undefined\<close>, the compact JSON text otherwise.
  A property whose value is \<open>undefined\<close> is left out; an \<open>undefined\<close> array element is
  printed as \<open>null\<close>.
\<close>

definition JSON_stringify :: "jsval \<Rightarrow> jsval" where
  "JSON_stringify v = (if v = JUndefined then JUndefined else JStr (json_text v))"

subsection \<open>Parsing\<close>

text \<open>
  \<open>JSON.parse(text)\<close> is \<open>Some\<close> of the value, or \<open>None\<close> where it throws a
  \<open>SyntaxError\<close>. The text is cut into tokens, which a stack machine then reads.
\<close>

datatype token = TLBrace | TRBrace | TLBrack | TRBrack | TColon | TComma
  | TString string | TNumber int | TDecimal int nat | TTrue | TFalse | TNull

definition is_ws :: "char \<Rightarrow> bool" where
  "is_ws c = (c = CHR '' '' \<or> c = CHR 0x09 \<or> c = CHR 0x0A \<or> c = CHR 0x0D)"

definition is_digit :: "char \<Rightarrow> bool" where
  "is_digit c = (c \<in> set ''0123456789'')"

definition digit_val :: "char \<Rightarrow> nat" where
  "digit_val c = of_char c - 48"

definition nat_of_digits :: "string \<Rightarrow> nat" where
  "nat_of_digits ds = foldl (\<lambda>a d. 10 * a + digit_val d) 0 ds"

definition hex_val :: "char \<Rightarrow> nat option" where
  "hex_val c = map_of (zip ''0123456789abcdefABCDEF''
                         [0, 1, 2, 3, 4, 5, 6, 7, 8, 9, 10, 11, 12, 13, 14, 15, 10, 11, 12, 13, 14, 15]) c"

definition unescape :: "char \<Rightarrow> char option" where
  "unescape e = map_of [(CHR 0x22, CHR 0x22), (CHR 0x5C, CHR 0x5C), (CHR ''/'', CHR ''/''),
                        (CHR ''b'', CHR 0x08), (CHR ''f'', CHR 0x0C), (CHR ''n'', CHR 0x0A),
                        (CHR ''r'', CHR 0x0D), (CHR ''t'', CHR 0x09)] e"

definition unicode_escape :: "string \<Rightarrow> char option" where
  "unicode_escape hs =
     (case map hex_val hs of
        [Some a, Some b, Some c, Some d] \<Rightarrow>
          (if a = 0 \<and> b = 0 then Some (char_of (16 * c + d)) else None)
      | _ \<Rightarrow> None)"

text \<open>
  The rest of a string literal after its opening quote: the string and the text after
  the closing quote. A raw control character ends the parse.
\<close>

fun lex_string :: "string \<Rightarrow> (string \<times> string) option" where
  "lex_string [] = None"
| "lex_string (c # cs) =
     (if c = CHR 0x22 then Some ([], cs)
      else if c = CHR 0x5C then
        (case cs of
           [] \<Rightarrow> None
         | e # es \<Rightarrow>
             if e = CHR ''u'' then
               (case unicode_escape (take 4 es) of
                  None \<Rightarrow> None
                | Some u \<Rightarrow> map_option (\<lambda>(s, r). (u # s, r)) (lex_string (drop 4 es)))
             else
               (case unescape e of
                  None \<Rightarrow> None
                | Some u \<Rightarrow> map_option (\<lambda>(s, r). (u # s, r)) (lex_string es)))
      else if (of_char c :: nat) < 32 then None
      else map_option (\<lambda>(s, r). (c # s, r)) (lex_string cs))"

text \<open>
  The token of a number literal with sign \<open>neg\<close>, digits \<open>M\<close>, \<open>s\<close> of them after the
  decimal point, and exponent \<open>E\<close>: the number \<open>M\<close> times ten to the power \<open>E - s\<close>.
\<close>

definition number_token :: "bool \<Rightarrow> nat \<Rightarrow> nat \<Rightarrow> int \<Rightarrow> token" where
  "number_token neg M s E =
     (let mant = (if neg then - int M else int M);
          scale = int s - E
      in if scale \<le> 0 then TNumber (mant * 10 ^ nat (- scale))
         else (case normalise mant (nat scale) of
                 (n, 0) \<Rightarrow> TNumber n
               | (n, Suc t) \<Rightarrow> TDecimal n (Suc t)))"

text \<open>
  The fraction of a number literal, if there is one: its digits, of which there must be
  one at least, and the text after them.
\<close>

definition lex_fraction :: "string \<Rightarrow> (string \<times> string) option" where
  "lex_fraction cs =
     (if cs \<noteq> [] \<and> hd cs = CHR ''.'' then
        (let fp = takeWhile is_digit (tl cs)
         in if fp = [] then None else Some (fp, dropWhile is_digit (tl cs)))
      else Some ([], cs))"

text \<open>
  The exponent of a number literal, if there is one: \<open>e\<close> or \<open>E\<close>, an optional sign and
  one digit at least. Without an exponent part the exponent is 0.
\<close>

definition lex_exponent :: "string \<Rightarrow> (int \<times> string) option" where
  "lex_exponent cs =
     (if cs \<noteq> [] \<and> hd cs \<in> set ''eE'' then
        (let r = tl cs;
             eneg = (r \<noteq> [] \<and> hd r = CHR ''-'');
             r' = (if r \<noteq> [] \<and> hd r \<in> set ''+-'' then tl r else r);
             ep = takeWhile is_digit r'
         in if ep = [] then None
            else Some (if eneg then - int (nat_of_digits ep) else int (nat_of_digits ep),
                       dropWhile is_digit r'))
      else Some (0, cs))"

text \<open>
  A number literal and the text after it: an optional minus sign, digits with no leading
  zero, an optional fraction and an optional exponent.
\<close>

definition lex_number :: "string \<Rightarrow> (token \<times> string) option" where
  "lex_number cs =
     (let neg = (cs \<noteq> [] \<and> hd cs = CHR ''-'');
          body = (if neg then tl cs else cs);
          ip = takeWhile is_digit body
      in if ip = [] \<or> (length ip > 1 \<and> hd ip = CHR ''0'') then None
         else
           (case lex_fraction (dropWhile is_digit body) of
              None \<Rightarrow> None
            | Some (fp, r) \<Rightarrow>
                (case lex_exponent r of
                   None \<Rightarrow> None
                 | Some (E, r') \<Rightarrow>
                     Some (number_token neg (nat_of_digits (ip @ fp)) (length fp) E, r'))))"

lemma lex_string_length: "lex_string cs = Some (s, r) \<Longrightarrow> length r < length cs"
proof (induction cs arbitrary: s r rule: lex_string.induct)
  case 1
  then show ?case by simp
next
  case (2 c cs)
  then show ?case
    by (auto split: if_splits list.splits option.splits simp del: lex_string.simps(2) simp add: lex_string.simps(2)[of c cs]) force+
qed

text \<open>The tokens of a text; white space between tokens is skipped.\<close>

function lex :: "string \<Rightarrow> token list option" where
  "lex [] = Some []"
| "lex (c # cs) =
     (if is_ws c then lex cs
      else if c = CHR ''{'' then map_option (Cons TLBrace) (lex cs)
      else if c = CHR ''}'' then map_option (Cons TRBrace) (lex cs)
      else if c = CHR ''['' then map_option (Cons TLBrack) (lex cs)
      else if c = CHR '']'' then map_option (Cons TRBrack) (lex cs)
      else if c = CHR '':'' then map_option (Cons TColon) (lex cs)
      else if c = CHR '','' then map_option (Cons TComma) (lex cs)
      else if c = CHR 0x22 then
        (case lex_string cs of
           None \<Rightarrow> None
         | Some (s, r) \<Rightarrow> map_option (Cons (TString s)) (lex r))
      else if c = CHR ''-'' \<or> is_digit c then
        (case lex_number (c # cs) of
           None \<Rightarrow> None
         | Some (tok, r) \<Rightarrow> map_option (Cons tok) (lex (drop (length cs - length r) cs)))
      else if starts_with (c # cs) ''true'' then map_option (Cons TTrue) (lex (drop 3 cs))
      else if starts_with (c # cs) ''false'' then map_option (Cons TFalse) (lex (drop 4 cs))
      else if starts_with (c # cs) ''null'' then map_option (Cons TNull) (lex (drop 3 cs))
      else None)"
  by pat_completeness auto
termination
  by (relation "measure length") (auto dest: lex_string_length)

declare lex.simps(2) [simp del]

text \<open>
  The stack holds the arrays and objects that are open: an array with the elements read
  so far, an object with its members, or an object with its members and the key whose
  value comes next. The mode says what may come next. A repeated key keeps its first
  position and takes the last value.
\<close>

datatype frame = FArr "jsval list" | FObj obj | FKey obj string

datatype mode = MValue | MFirst | MAfter | MKeyFirst | MKey | MColon | MDone jsval

fun push :: "jsval \<Rightarrow> frame list \<Rightarrow> (frame list \<times> mode) option" where
  "push v [] = Some ([], MDone v)"
| "push v (FArr acc # st) = Some (FArr (acc @ [v]) # st, MAfter)"
| "push v (FKey acc k # st) = Some (FObj (AList.update k v acc) # st, MAfter)"
| "push v (FObj acc # st) = None"

fun start_value :: "frame list \<Rightarrow> token \<Rightarrow> (frame list \<times> mode) option" where
  "start_value st TNull = push JNull st"
| "start_value st TTrue = push (JBool True) st"
| "start_value st TFalse = push (JBool False) st"
| "start_value st (TNumber n) = push (JNum n) st"
| "start_value st (TDecimal m s) = push (JDec m s) st"
| "start_value st (TString s) = push (JStr s) st"
| "start_value st TLBrack = Some (FArr [] # st, MFirst)"
| "start_value st TLBrace = Some (FObj [] # st, MKeyFirst)"
| "start_value st t = None"

fun close_array :: "frame list \<Rightarrow> (frame list \<times> mode) option" where
  "close_array (FArr acc # st) = push (JArr acc) st"
| "close_array st = None"

fun close_object :: "frame list \<Rightarrow> (frame list \<times> mode) option" where
  "close_object (FObj acc # st) = push (JObj acc) st"
| "close_object st = None"

fun read_key :: "frame list \<Rightarrow> token \<Rightarrow> (frame list \<times> mode) option" where
  "read_key (FObj acc # st) (TString k) = Some (FKey acc k # st, MColon)"
| "read_key st t = None"

fun step :: "frame list \<times> mode \<Rightarrow> token \<Rightarrow> (frame list \<times> mode) option" where
  "step (st, MValue) t = start_value st t"
| "step (st, MFirst) t = (if t = TRBrack then close_array st else start_value st t)"
| "step (st, MAfter) t =
     (if t = TComma then
        (case st of FArr acc # st' \<Rightarrow> Some (st, MValue)
                  | FObj acc # st' \<Rightarrow> Some (st, MKey)
                  | _ \<Rightarrow> None)
      else if t = TRBrack then close_array st
      else if t = TRBrace then close_object st
      else None)"
| "step (st, MKeyFirst) t = (if t = TRBrace then close_object st else read_key st t)"
| "step (st, MKey) t = read_key st t"
| "step (st, MColon) t = (if t = TColon then Some (st, MValue) else None)"
| "step (st, MDone v) t = None"

fun run :: "frame list \<times> mode \<Rightarrow> token list \<Rightarrow> (frame list \<times> mode) option" where
  "run s [] = Some s"
| "run s (t # ts) = (case step s t of None \<Rightarrow> None | Some s' \<Rightarrow> run s' ts)"

text \<open>The text parses when the machine ends with one complete value and an empty stack.\<close>

definition JSON_parse :: "string \<Rightarrow> jsval option" where
  "JSON_parse s =
     (case lex s of
        None \<Rightarrow> None
      | Some ts \<Rightarrow>
          (case run ([], MValue) ts of
             Some ([], MDone v) \<Rightarrow> Some v
           | _ \<Rightarrow> None))"


section \<open>Type mapper\<close>

text \<open>
  \<open>mapHawiahTypeToSQL(type)\<close>: a structured descriptor with a truthy \<open>type\<close> property
  is unwrapped to it; the tag is turned into an upper-case string and matched by substring.
\<close>

definition mapHawiahTypeToSQL :: "jsval \<Rightarrow> string" where
  "mapHawiahTypeToSQL type =
     (let t0 = (if typeof type = ''object'' \<and> type \<noteq> JNull \<and> truthy (js_get type ''type'')
                then js_get type ''type'' else type);
          t = toUpperCase (String t0)
      in if includes_str t ''STRING'' \<or> includes_str t ''TEXT'' \<or> includes_str t ''EMAIL''
            \<or> includes_str t ''URL'' \<or> includes_str t ''UUID'' \<or> includes_str t ''CHAR''
         then ''TEXT''
         else if includes_str t ''NUMBER''
         then (if includes_str t ''INT'' then ''INTEGER'' else ''REAL'')
         else if includes_str t ''BOOLEAN'' then ''INTEGER''
         else if includes_str t ''DATE'' then ''TEXT''
         else if includes_str t ''BLOB'' \<or> includes_str t ''BUFFER'' then ''BLOB''
         else ''TEXT'')"

section \<open>The backing engine\<close>

text \<open>
  The SQL statements the driver issues, as functions on the table named \<open>tableName\<close> in
  the database file (\<open>None\<close> when the file has no such table). A cell holds the value that
  was bound: \<open>SqlInt n\<close> is the number \<open>n\<close>, and \<open>SqlReal m s\<close> is the number
  \<open>m / 10\<^sup>s\<close>. The conversion a column's type affinity applies to a stored value is
  modelled for the \<open>_id\<close> column only, where the driver compares; \<open>BLOB\<close> cells are not
  modelled. Rows are kept and scanned in insertion order.
\<close>

datatype sqlval = SqlNull | SqlInt int | SqlReal int nat | SqlText string

type_synonym row = "(string \<times> sqlval) list"

record table =
  columns :: "(string \<times> string) list"
  rows :: "row list"
  indexes :: "string list"

datatype error = NotConnected | TypeError | SyntaxError | SqliteError

text \<open>
  Binding a JavaScript value to a statement parameter: numbers (as \<open>REAL\<close> values),
  strings and \<open>null\<close> (also \<open>undefined\<close>) are bound; a boolean is refused with a
  \<open>TypeError\<close>. Arrays and plain objects passed as parameters are taken as refused as
  well.
\<close>

fun bind :: "jsval \<Rightarrow> error + sqlval" where
  "bind JNull = Inr SqlNull"
| "bind JUndefined = Inr SqlNull"
| "bind (JNum n) = Inr (SqlInt n)"
| "bind (JDec m s) = Inr (SqlReal m s)"
| "bind (JStr s) = Inr (SqlText s)"
| "bind v = Inl TypeError"

fun bind_all :: "(string \<times> jsval) list \<Rightarrow> error + (string \<times> sqlval) list" where
  "bind_all [] = Inr []"
| "bind_all ((c, v) # ps) =
     (case bind v of
        Inl e \<Rightarrow> Inl e
      | Inr x \<Rightarrow> (case bind_all ps of Inl e \<Rightarrow> Inl e | Inr xs \<Rightarrow> Inr ((c, x) # xs)))"

text \<open>The JavaScript value a cell is read back as, and the object a row is read back as.\<close>

fun to_js :: "sqlval \<Rightarrow> jsval" where
  "to_js SqlNull = JNull"
| "to_js (SqlInt n) = JNum n"
| "to_js (SqlReal m s) = JDec m s"
| "to_js (SqlText s) = JStr s"

definition row_object :: "row \<Rightarrow> obj" where
  "row_object r = map (\<lambda>(c, v). (c, to_js v)) r"

definition cell :: "row \<Rightarrow> string \<Rightarrow> sqlval" where
  "cell r c = (case map_of r c of None \<Rightarrow> SqlNull | Some v \<Rightarrow> v)"

text \<open>
  The text of a \<open>REAL\<close> value, as the engine converts it for a \<open>TEXT\<close> column: from
  the digits \<open>ds\<close> of the number without trailing zeros and the position \<open>p\<close> of the
  decimal point after the first \<open>p\<close> digits. The number 5 is \<open>5.0\<close>; exponent notation
  is used when the exponent is below \<open>-4\<close> or at least 15. The engine keeps 15
  significant digits; the rounding of a longer number is not modelled.
\<close>

definition significant_digits :: "nat \<Rightarrow> string" where
  "significant_digits n = rev (dropWhile (\<lambda>c. c = CHR ''0'') (rev (digits_of n)))"

definition real_text :: "int \<Rightarrow> nat \<Rightarrow> string" where
  "real_text m s =
     (if m = 0 then ''0.0''
      else
        let ds = significant_digits (nat \<bar>m\<bar>);
            k = int (length ds);
            p = int (length (digits_of (nat \<bar>m\<bar>))) - int s;
            x = p - 1;
            body =
              (if x < - 4 \<or> 15 \<le> x then
                 hd ds # ''.'' @ (if k = 1 then ''0'' else tl ds) @ ''e''
                 @ (if x < 0 then ''-'' else ''+'')
                 @ (if \<bar>x\<bar> < 10 then ''0'' else []) @ digits_of (nat \<bar>x\<bar>)
               else if p \<le> 0 then ''0.'' @ replicate (nat (- p)) (CHR ''0'') @ ds
               else if k \<le> p then ds @ replicate (nat (p - k)) (CHR ''0'') @ ''.0''
               else take (nat p) ds @ ''.'' @ drop (nat p) ds)
        in if m < 0 then CHR ''-'' # body else body)"

text \<open>
  \<open>WHERE _id = ?\<close>: the \<open>_id\<close> column is declared \<open>TEXT\<close>, so a number on either
  side is converted to its text and both sides are compared as text; \<open>NULL\<close> equals
  nothing.
\<close>

fun sql_text :: "sqlval \<Rightarrow> string option" where
  "sql_text SqlNull = None"
| "sql_text (SqlInt n) = Some (real_text n 0)"
| "sql_text (SqlReal m s) = Some (real_text m s)"
| "sql_text (SqlText s) = Some s"

definition id_matches :: "sqlval \<Rightarrow> row \<Rightarrow> bool" where
  "id_matches p r =
     (case (sql_text (cell r ''_id''), sql_text p) of
        (Some a, Some b) \<Rightarrow> a = b
      | _ \<Rightarrow> False)"

text \<open>
  The row a statement returns has one cell for each selected column, \<open>NULL\<close> where the
  stored row holds none: all columns of the table for \<open>SELECT *\<close>, the \<open>_data\<close> column
  for \<open>SELECT _data\<close>. A row that \<open>INSERT\<close> stores has one cell for each column of
  the table.
\<close>

definition star_row :: "table \<Rightarrow> row \<Rightarrow> row" where
  "star_row t r = map (\<lambda>(c, decl). (c, cell r c)) (columns t)"

definition data_row :: "row \<Rightarrow> row" where
  "data_row r = [(''_data'', cell r ''_data'')]"

definition has_column :: "table \<Rightarrow> string \<Rightarrow> bool" where
  "has_column t c = (c \<in> set (map fst (columns t)))"

text \<open>Preparing a statement fails when the table or a column it names does not exist.\<close>

definition prepare_on :: "string list \<Rightarrow> table option \<Rightarrow> error + table" where
  "prepare_on cols db =
     (case db of
        None \<Rightarrow> Inl SqliteError
      | Some t \<Rightarrow> if list_all (has_column t) cols then Inr t else Inl SqliteError)"

text \<open>A row satisfies the \<open>NOT NULL\<close> constraints of the table's column declarations.\<close>

definition not_null_ok :: "table \<Rightarrow> row \<Rightarrow> bool" where
  "not_null_ok t r =
     list_all (\<lambda>(c, decl). \<not> (includes_str decl ''NOT NULL'' \<and> cell r c = SqlNull)) (columns t)"

text \<open>
  The primary key of a new row is not yet taken (\<open>NULL\<close> keys do not clash). The only
  key column the driver declares is \<open>_id TEXT PRIMARY KEY\<close>, so keys are compared as text.
\<close>

definition primary_key_ok :: "table \<Rightarrow> row \<Rightarrow> bool" where
  "primary_key_ok t r =
     list_all (\<lambda>(c, decl). \<not> (includes_str decl ''PRIMARY KEY'' \<and> cell r c \<noteq> SqlNull
                                  \<and> sql_text (cell r c)
                                      \<in> set (map (\<lambda>r'. sql_text (cell r' c)) (rows t))))
              (columns t)"

text \<open>\<open>INSERT INTO t (cols) VALUES (?, ...)\<close>, run with the given values.\<close>

definition sql_insert :: "(string \<times> jsval) list \<Rightarrow> table option \<Rightarrow> error + table" where
  "sql_insert params db =
     (case prepare_on (map fst params) db of
        Inl e \<Rightarrow> Inl e
      | Inr t \<Rightarrow>
          (case bind_all params of
             Inl e \<Rightarrow> Inl e
           | Inr cells \<Rightarrow>
               (let r = star_row t cells
                in if not_null_ok t r \<and> primary_key_ok t r
                   then Inr (t\<lparr>rows := rows t @ [r]\<rparr>)
                   else Inl SqliteError)))"

text \<open>\<open>UPDATE t SET c = ?, ... WHERE _id = ?\<close>.\<close>

definition set_cells :: "(string \<times> sqlval) list \<Rightarrow> row \<Rightarrow> row" where
  "set_cells cells r = map (\<lambda>(c, v). (c, case map_of cells c of None \<Rightarrow> v | Some v' \<Rightarrow> v')) r"

definition sql_update :: "(string \<times> jsval) list \<Rightarrow> jsval \<Rightarrow> table option \<Rightarrow> error + table" where
  "sql_update params ident db =
     (case prepare_on (map fst params @ [''_id'']) db of
        Inl e \<Rightarrow> Inl e
      | Inr t \<Rightarrow>
          (case bind_all params of
             Inl e \<Rightarrow> Inl e
           | Inr cells \<Rightarrow>
               (case bind ident of
                  Inl e \<Rightarrow> Inl e
                | Inr p \<Rightarrow>
                    (let rs = map (\<lambda>r. if id_matches p r then set_cells cells r else r) (rows t)
                     in if list_all (not_null_ok t)
                             (map (set_cells cells) (filter (id_matches p) (rows t)))
                        then Inr (t\<lparr>rows := rs\<rparr>)
                        else Inl SqliteError))))"

text \<open>\<open>DELETE FROM t WHERE _id = ?\<close>.\<close>

definition sql_delete :: "jsval \<Rightarrow> table option \<Rightarrow> error + table" where
  "sql_delete ident db =
     (case prepare_on [''_id''] db of
        Inl e \<Rightarrow> Inl e
      | Inr t \<Rightarrow>
          (case bind ident of
             Inl e \<Rightarrow> Inl e
           | Inr p \<Rightarrow> Inr (t\<lparr>rows := filter (\<lambda>r. \<not> id_matches p r) (rows t)\<rparr>)))"

text \<open>\<open>SELECT * FROM t\<close> and \<open>SELECT _data FROM t\<close>, with \<open>all()\<close>.\<close>

definition sql_select_all :: "table option \<Rightarrow> error + row list" where
  "sql_select_all db =
     (case prepare_on [] db of Inl e \<Rightarrow> Inl e | Inr t \<Rightarrow> Inr (map (star_row t) (rows t)))"

definition sql_select_data :: "table option \<Rightarrow> error + row list" where
  "sql_select_data db =
     (case prepare_on [''_data''] db of
        Inl e \<Rightarrow> Inl e
      | Inr t \<Rightarrow> Inr (map data_row (rows t)))"

text \<open>
  \<open>SELECT ... FROM t WHERE _id = ?\<close> with \<open>get(id)\<close>: the first matching row, or
  \<open>None\<close> for \<open>undefined\<close>.
\<close>

definition sql_select_by_id :: "jsval \<Rightarrow> table option \<Rightarrow> error + row option" where
  "sql_select_by_id ident db =
     (case prepare_on [''_id''] db of
        Inl e \<Rightarrow> Inl e
      | Inr t \<Rightarrow>
          (case bind ident of
             Inl e \<Rightarrow> Inl e
           | Inr p \<Rightarrow> Inr (map_option (star_row t) (find (id_matches p) (rows t)))))"

definition sql_select_data_by_id :: "jsval \<Rightarrow> table option \<Rightarrow> error + row option" where
  "sql_select_data_by_id ident db =
     (case prepare_on [''_data'', ''_id''] db of
        Inl e \<Rightarrow> Inl e
      | Inr t \<Rightarrow>
          (case bind ident of
             Inl e \<Rightarrow> Inl e
           | Inr p \<Rightarrow> Inr (map_option data_row (find (id_matches p) (rows t)))))"

text \<open>\<open>SELECT COUNT(*) as count FROM t\<close>.\<close>

definition sql_count :: "table option \<Rightarrow> error + nat" where
  "sql_count db = (case prepare_on [] db of Inl e \<Rightarrow> Inl e | Inr t \<Rightarrow> Inr (length (rows t)))"

text \<open>
  \<open>CREATE TABLE IF NOT EXISTS t (...)\<close>: an existing table is left as it is; a column
  list with an empty column clause or a repeated column name is an error.
\<close>

definition sql_create_table :: "(string \<times> string) list \<Rightarrow> table option \<Rightarrow> error + table" where
  "sql_create_table cols db =
     (if list_ex (\<lambda>(c, decl). c = [] \<and> decl = []) cols then Inl SqliteError
      else case db of
        Some t \<Rightarrow> Inr t
      | None \<Rightarrow>
          if distinct (map fst cols)
          then Inr \<lparr>columns = cols, rows = [], indexes = []\<rparr>
          else Inl SqliteError)"

text \<open>\<open>CREATE INDEX IF NOT EXISTS name ON t(col)\<close>.\<close>

definition sql_create_index :: "string \<Rightarrow> string \<Rightarrow> table \<Rightarrow> error + table" where
  "sql_create_index name col t =
     (if name \<in> set (indexes t) then Inr t
      else if has_column t col then Inr (t\<lparr>indexes := indexes t @ [name]\<rparr>)
      else Inl SqliteError)"

section \<open>The driver\<close>

text \<open>
  The schema handed to \<open>setSchema\<close> either has a \<open>getDefinition()\<close> method or is the
  definition itself. The definition is a plain object from field names to type descriptors.
\<close>

datatype schema = SchemaObject obj | PlainSchema obj

fun definition_of :: "schema \<Rightarrow> obj" where
  "definition_of (SchemaObject d) = d"
| "definition_of (PlainSchema d) = d"

datatype dbtype = Sql | NoSql

text \<open>
  The state of a driver instance: \<open>connected\<close> is \<open>this.db !== null\<close>; \<open>storage\<close> is the
  table \<open>tableName\<close> of the database file at \<open>filePath\<close>; \<open>schema\<close> is \<open>None\<close> for
  \<open>null\<close>.
\<close>

record driver =
  connected :: bool
  storage :: "table option"
  schema :: "schema option"
  dbType :: dbtype

text \<open>The constructor, on a database file that holds the given table or none.\<close>

definition new_driver :: "table option \<Rightarrow> driver" where
  "new_driver db = \<lparr>connected = False, storage = db, schema = None, dbType = NoSql\<rparr>"

definition setSchema :: "schema option \<Rightarrow> driver \<Rightarrow> driver" where
  "setSchema s st = st\<lparr>schema := s, dbType := Sql\<rparr>"

text \<open>\<open>this.schema && this.dbType === 'sql'\<close>.\<close>

definition hybrid :: "driver \<Rightarrow> bool" where
  "hybrid st = (schema st \<noteq> None \<and> dbType st = Sql)"

definition ensureConnected :: "driver \<Rightarrow> error + unit" where
  "ensureConnected st = (if \<not> connected st then Inl NotConnected else Inr ())"

subsection \<open>connect and disconnect\<close>

text \<open>
  The column clauses of the two \<open>CREATE TABLE\<close> statements. An empty definition leaves
  an empty clause between two commas, written here as the column with the empty name.
\<close>

definition schemaless_columns :: "(string \<times> string) list" where
  "schemaless_columns =
     [(''_id'', ''TEXT PRIMARY KEY''), (''_data'', ''TEXT NOT NULL''),
      (''_createdAt'', ''TEXT NOT NULL''), (''_updatedAt'', ''TEXT NOT NULL'')]"

definition hybrid_columns :: "obj \<Rightarrow> (string \<times> string) list" where
  "hybrid_columns definition =
     [(''_id'', ''TEXT PRIMARY KEY'')]
     @ (if definition = [] then [([], [])]
        else map (\<lambda>(key, type). (key, mapHawiahTypeToSQL type)) definition)
     @ [(''_extras'', ''TEXT''), (''_createdAt'', ''TEXT NOT NULL''),
        (''_updatedAt'', ''TEXT NOT NULL'')]"

text \<open>
  \<open>connect()\<close>: the handle is assigned first, so the driver is connected even when one
  of the statements that follow fails.
\<close>

definition connect :: "driver \<Rightarrow> (error + unit) \<times> driver" where
  "connect st =
     (let st1 = st\<lparr>connected := True\<rparr>;
          cols = (case schema st of
                    Some s \<Rightarrow> if dbType st = Sql then hybrid_columns (definition_of s)
                              else schemaless_columns
                  | None \<Rightarrow> schemaless_columns)
      in case sql_create_table cols (storage st) of
           Inl e \<Rightarrow> (Inl e, st1)
         | Inr t \<Rightarrow>
             (case sql_create_index ''idx_createdAt'' ''_createdAt'' t of
                Inl e \<Rightarrow> (Inl e, st1\<lparr>storage := Some t\<rparr>)
              | Inr t1 \<Rightarrow>
                  (case sql_create_index ''idx_updatedAt'' ''_updatedAt'' t1 of
                     Inl e \<Rightarrow> (Inl e, st1\<lparr>storage := Some t1\<rparr>)
                   | Inr t2 \<Rightarrow> (Inr (), st1\<lparr>storage := Some t2\<rparr>))))"

definition disconnect :: "driver \<Rightarrow> driver" where
  "disconnect st = (if connected st then st\<lparr>connected := False\<rparr> else st)"

subsection \<open>Splitting and merging records\<close>

text \<open>
  \<open>key in definition\<close> holds for the own keys of the definition and for the members
  every plain object inherits from \<open>Object.prototype\<close>.
\<close>

definition object_prototype_members :: "string list" where
  "object_prototype_members =
     [''constructor'', ''__defineGetter__'', ''__defineSetter__'', ''hasOwnProperty'',
      ''__lookupGetter__'', ''__lookupSetter__'', ''isPrototypeOf'', ''propertyIsEnumerable'',
      ''toString'', ''valueOf'', ''__proto__'', ''toLocaleString'']"

definition js_in :: "string \<Rightarrow> obj \<Rightarrow> bool" where
  "js_in key ob = (key \<in> set (map fst ob) \<or> key \<in> set object_prototype_members)"

definition reserved_fields :: "string list" where
  "reserved_fields = [''_id'', ''_createdAt'', ''_updatedAt'']"

text \<open>\<open>splitData(data)\<close>, returning \<open>(schemaData, extraData)\<close>.\<close>

definition splitData :: "schema option \<Rightarrow> obj \<Rightarrow> obj \<times> obj" where
  "splitData sch data =
     (case sch of
        None \<Rightarrow> ([], data)
      | Some s \<Rightarrow>
          fold (\<lambda>(key, v) (schemaData, extraData).
                  if js_in key (definition_of s) then (AList.update key v schemaData, extraData)
                  else if key \<notin> set reserved_fields
                  then (schemaData, AList.update key v extraData)
                  else (schemaData, extraData))
               data ([], []))"

text \<open>\<open>prepareValue(value)\<close>.\<close>

definition prepareValue :: "jsval \<Rightarrow> jsval" where
  "prepareValue v =
     (if v = JNull \<or> v = JUndefined then JNull
      else if typeof v = ''boolean'' then (if truthy v then JNum 1 else JNum 0)
      else if typeof v = ''object'' then JSON_stringify v
      else v)"

text \<open>
  The own enumerable properties a spread \<open>{...v}\<close> copies: those of an object, the
  indexed elements of an array, the indexed characters of a string, none of another value.
\<close>

definition index_keys :: "nat \<Rightarrow> string list" where
  "index_keys n = map (\<lambda>i. show_int (int i)) [0..<n]"

fun spread_props :: "jsval \<Rightarrow> obj" where
  "spread_props (JObj kvs) = kvs"
| "spread_props (JArr xs) = zip (index_keys (length xs)) xs"
| "spread_props (JStr s) = zip (index_keys (length s)) (map (\<lambda>c. JStr [c]) s)"
| "spread_props v = []"

text \<open>
  Strict equality \<open>a === b\<close>; \<open>a !== b\<close> is its negation. Numbers are compared by
  value. Every record the driver compares was just built from the database, so an array
  or object in it is never the same reference as a value of the query.
\<close>

fun strict_eq :: "jsval \<Rightarrow> jsval \<Rightarrow> bool" where
  "strict_eq JUndefined JUndefined = True"
| "strict_eq JNull JNull = True"
| "strict_eq (JBool a) (JBool b) = (a = b)"
| "strict_eq (JNum a) (JNum b) = (a = b)"
| "strict_eq (JNum a) (JDec m s) = (a * 10 ^ s = m)"
| "strict_eq (JDec m s) (JNum a) = (m = a * 10 ^ s)"
| "strict_eq (JDec m s) (JDec n t) = (m * 10 ^ t = n * 10 ^ s)"
| "strict_eq (JStr a) (JStr b) = (a = b)"
| "strict_eq a b = False"

text \<open>
  The cast in \<open>mergeData\<close> for one column: \<open>d\<close> is \<open>definition[key]\<close>, \<open>v\<close> is
  \<open>rest[key]\<close>.
\<close>

definition cast_column :: "jsval \<Rightarrow> jsval \<Rightarrow> jsval" where
  "cast_column d v =
     (if truthy d then
        (let type = (if typeof d = ''object'' \<and> truthy (js_get d ''type'')
                     then js_get d ''type'' else d)
         in if type = JStr ''boolean'' \<and> typeof v = ''number''
            then JBool (strict_eq v (JNum 1)) else v)
      else v)"

text \<open>\<open>mergeData(row)\<close>; a payload that does not parse leaves \<open>extras\<close> empty.\<close>

definition mergeData :: "schema option \<Rightarrow> obj \<Rightarrow> obj" where
  "mergeData sch row =
     (let extras_col = obj_get row ''_extras'';
          rest = AList.delete ''_extras'' row;
          extras = (if truthy extras_col
                    then (case JSON_parse (String extras_col) of None \<Rightarrow> JObj [] | Some e \<Rightarrow> e)
                    else JObj []);
          rest1 = (case sch of
                     None \<Rightarrow> rest
                   | Some s \<Rightarrow>
                       map (\<lambda>(key, v). (key, cast_column (obj_get (definition_of s) key) v)) rest)
      in assign rest1 (spread_props extras))"

subsection \<open>Matching\<close>

text \<open>\<open>record[key]\<close>: reading a property of \<open>null\<close> or \<open>undefined\<close> throws.\<close>

definition prop_read :: "jsval \<Rightarrow> string \<Rightarrow> error + jsval" where
  "prop_read v key = (if v = JNull \<or> v = JUndefined then Inl TypeError else Inr (js_get v key))"

fun matchesQuery :: "jsval \<Rightarrow> obj \<Rightarrow> error + bool" where
  "matchesQuery record [] = Inr True"
| "matchesQuery record ((key, v) # query) =
     (case prop_read record key of
        Inl e \<Rightarrow> Inl e
      | Inr x \<Rightarrow> if \<not> strict_eq x v then Inr False else matchesQuery record query)"

text \<open>\<open>records.filter(record => this.matchesQuery(record, query))\<close>.\<close>

fun filter_records :: "jsval list \<Rightarrow> obj \<Rightarrow> error + jsval list" where
  "filter_records [] query = Inr []"
| "filter_records (record # records) query =
     (case matchesQuery record query of
        Inl e \<Rightarrow> Inl e
      | Inr b \<Rightarrow>
          (case filter_records records query of
             Inl e \<Rightarrow> Inl e
           | Inr rs \<Rightarrow> Inr (if b then record # rs else rs)))"

text \<open>\<open>rows.map(row => JSON.parse(row._data))\<close>: a payload that does not parse throws.\<close>

definition parse_data :: "row \<Rightarrow> error + jsval" where
  "parse_data r =
     (case JSON_parse (String (obj_get (row_object r) ''_data'')) of
        None \<Rightarrow> Inl SyntaxError
      | Some v \<Rightarrow> Inr v)"

fun parse_rows :: "row list \<Rightarrow> error + jsval list" where
  "parse_rows [] = Inr []"
| "parse_rows (r # rs) =
     (case parse_data r of
        Inl e \<Rightarrow> Inl e
      | Inr v \<Rightarrow> (case parse_rows rs of Inl e \<Rightarrow> Inl e | Inr vs \<Rightarrow> Inr (v # vs)))"

subsection \<open>Operations\<close>

text \<open>
  An operation that writes returns its result, or the error it throws, together with the
  state it leaves. \<open>generateId()\<close> and \<open>new Date().toISOString()\<close> are inputs: \<open>set\<close>
  takes the identifier and the timestamp it draws, \<open>update\<close> takes a clock whose \<open>i\<close>-th
  value stamps the \<open>i\<close>-th record.
\<close>

definition set_op :: "string \<Rightarrow> string \<Rightarrow> obj \<Rightarrow> driver \<Rightarrow> (error + obj) \<times> driver" where
  "set_op ident now data st =
     (if \<not> connected st then (Inl NotConnected, st)
      else
        let record = assign data [(''_id'', JStr ident), (''_createdAt'', JStr now),
                                  (''_updatedAt'', JStr now)]
        in if hybrid st then
             (let (schemaData, extraData) = splitData (schema st) record;
                  schemaKeys = map fst schemaData;
                  schemaValues = map snd schemaData;
                  cols = [''_id''] @ schemaKeys @ [''_extras'', ''_createdAt'', ''_updatedAt''];
                  finalValues = map prepareValue
                    ([JStr ident] @ schemaValues
                     @ [JSON_stringify (JObj extraData), JStr now, JStr now])
              in case sql_insert (zip cols finalValues) (storage st) of
                   Inl e \<Rightarrow> (Inl e, st)
                 | Inr t \<Rightarrow> (Inr record, st\<lparr>storage := Some t\<rparr>))
           else
             (case sql_insert [(''_id'', JStr ident), (''_data'', JSON_stringify (JObj record)),
                               (''_createdAt'', JStr now), (''_updatedAt'', JStr now)]
                              (storage st) of
                Inl e \<Rightarrow> (Inl e, st)
              | Inr t \<Rightarrow> (Inr record, st\<lparr>storage := Some t\<rparr>)))"

text \<open>\<open>get(query)\<close>; \<open>Object.keys(query).length\<close> is the length of the query.\<close>

definition get :: "obj \<Rightarrow> driver \<Rightarrow> error + jsval list" where
  "get query st =
     (if \<not> connected st then Inl NotConnected
      else if hybrid st then
        (case sql_select_all (storage st) of
           Inl e \<Rightarrow> Inl e
         | Inr rs \<Rightarrow>
             (let records = map (\<lambda>r. JObj (mergeData (schema st) (row_object r))) rs
              in if length query > 0 then filter_records records query else Inr records))
      else
        (case sql_select_data (storage st) of
           Inl e \<Rightarrow> Inl e
         | Inr allRows \<Rightarrow>
             (case parse_rows allRows of
                Inl e \<Rightarrow> Inl e
              | Inr allRecords \<Rightarrow>
                  if length query = 0 then Inr allRecords
                  else filter_records allRecords query)))"

text \<open>\<open>getOne(query)\<close>; \<open>JNull\<close> is the result \<open>null\<close>.\<close>

definition getOne :: "obj \<Rightarrow> driver \<Rightarrow> error + jsval" where
  "getOne query st =
     (if \<not> connected st then Inl NotConnected
      else if truthy (obj_get query ''_id'') then
        (if hybrid st then
           (case sql_select_by_id (obj_get query ''_id'') (storage st) of
              Inl e \<Rightarrow> Inl e
            | Inr None \<Rightarrow> Inr JNull
            | Inr (Some r) \<Rightarrow> Inr (JObj (mergeData (schema st) (row_object r))))
         else
           (case sql_select_data_by_id (obj_get query ''_id'') (storage st) of
              Inl e \<Rightarrow> Inl e
            | Inr None \<Rightarrow> Inr JNull
            | Inr (Some r) \<Rightarrow> parse_data r))
      else
        (case get query st of
           Inl e \<Rightarrow> Inl e
         | Inr results \<Rightarrow> Inr (if length results > 0 then hd results else JNull)))"

text \<open>
  One pass of the loop of \<open>update\<close>: the merged record, and the statement that persists
  it. The hybrid branch adds the \<open>SET\<close> clause of the schema columns only when there is
  one, which the pairing of columns with values expresses as well.
\<close>

definition updatedRecord_of :: "jsval \<Rightarrow> obj \<Rightarrow> string \<Rightarrow> obj" where
  "updatedRecord_of record data now =
     assign (assign (spread_props record) data) [(''_updatedAt'', JStr now)]"

definition update_row :: "driver \<Rightarrow> jsval \<Rightarrow> obj \<Rightarrow> error + table" where
  "update_row st record updatedRecord =
     (case prop_read record ''_id'' of
        Inl e \<Rightarrow> Inl e
      | Inr record_id \<Rightarrow>
          if hybrid st then
            (let (schemaData, extraData) = splitData (schema st) updatedRecord;
                 schemaKeys = map fst schemaData;
                 schemaValues = map snd schemaData;
                 params = schemaValues
                   @ [JSON_stringify (JObj extraData), obj_get updatedRecord ''_updatedAt''];
                 finalParams = map prepareValue params
             in sql_update (zip (schemaKeys @ [''_extras'', ''_updatedAt'']) finalParams)
                           (prepareValue record_id) (storage st))
          else
            sql_update [(''_data'', JSON_stringify (JObj updatedRecord)),
                        (''_updatedAt'', obj_get updatedRecord ''_updatedAt'')]
                       record_id (storage st))"

fun update_loop ::
  "(nat \<Rightarrow> string) \<Rightarrow> obj \<Rightarrow> jsval list \<Rightarrow> nat \<Rightarrow> driver \<Rightarrow> (error + nat) \<times> driver" where
  "update_loop clock data [] cnt st = (Inr cnt, st)"
| "update_loop clock data (record # records) cnt st =
     (case update_row st record (updatedRecord_of record data (clock cnt)) of
        Inl e \<Rightarrow> (Inl e, st)
      | Inr t \<Rightarrow> update_loop clock data records (Suc cnt) (st\<lparr>storage := Some t\<rparr>))"

definition update ::
  "(nat \<Rightarrow> string) \<Rightarrow> obj \<Rightarrow> obj \<Rightarrow> driver \<Rightarrow> (error + nat) \<times> driver" where
  "update clock query data st =
     (if \<not> connected st then (Inl NotConnected, st)
      else case get query st of
             Inl e \<Rightarrow> (Inl e, st)
           | Inr records \<Rightarrow> update_loop clock data records 0 st)"

text \<open>\<open>delete(query)\<close>.\<close>

fun delete_loop :: "jsval list \<Rightarrow> nat \<Rightarrow> driver \<Rightarrow> (error + nat) \<times> driver" where
  "delete_loop [] cnt st = (Inr cnt, st)"
| "delete_loop (record # records) cnt st =
     (case prop_read record ''_id'' of
        Inl e \<Rightarrow> (Inl e, st)
      | Inr record_id \<Rightarrow>
          (case sql_delete record_id (storage st) of
             Inl e \<Rightarrow> (Inl e, st)
           | Inr t \<Rightarrow> delete_loop records (Suc cnt) (st\<lparr>storage := Some t\<rparr>)))"

definition delete :: "obj \<Rightarrow> driver \<Rightarrow> (error + nat) \<times> driver" where
  "delete query st =
     (if \<not> connected st then (Inl NotConnected, st)
      else case get query st of
             Inl e \<Rightarrow> (Inl e, st)
           | Inr records \<Rightarrow> delete_loop records 0 st)"

text \<open>\<open>exists(query)\<close> and \<open>count(query)\<close>.\<close>

definition exists :: "obj \<Rightarrow> driver \<Rightarrow> error + bool" where
  "exists query st =
     (if \<not> connected st then Inl NotConnected
      else case getOne query st of
             Inl e \<Rightarrow> Inl e
           | Inr result \<Rightarrow> Inr (result \<noteq> JNull))"

definition count :: "obj \<Rightarrow> driver \<Rightarrow> error + nat" where
  "count query st =
     (if \<not> connected st then Inl NotConnected
      else if length query = 0 then sql_count (storage st)
      else case get query st of
             Inl e \<Rightarrow> Inl e
           | Inr results \<Rightarrow> Inr (length results))"

text \<open>\<open>clear()\<close> runs \<open>DELETE FROM t\<close>; \<open>drop()\<close> runs \<open>DROP TABLE IF EXISTS t\<close>.\<close>

definition clear :: "driver \<Rightarrow> (error + unit) \<times> driver" where
  "clear st =
     (if \<not> connected st then (Inl NotConnected, st)
      else case prepare_on [] (storage st) of
             Inl e \<Rightarrow> (Inl e, st)
           | Inr t \<Rightarrow> (Inr (), st\<lparr>storage := Some (t\<lparr>rows := []\<rparr>)\<rparr>))"

definition drop_op :: "driver \<Rightarrow> (error + unit) \<times> driver" where
  "drop_op st =
     (if \<not> connected st then (Inl NotConnected, st)
      else (Inr (), st\<lparr>storage := None\<rparr>))"

text \<open>
  The remaining operations hand a fixed or a caller-supplied statement to the engine.
  What the engine does with it is a parameter: \<open>exec_sql\<close> runs a statement on the
  database, \<open>compile_sql\<close> only compiles it.
\<close>

record engine =
  exec_sql :: "string \<Rightarrow> table option \<Rightarrow> error + table option"
  compile_sql :: "string \<Rightarrow> table option \<Rightarrow> error + unit"

definition db_exec :: "engine \<Rightarrow> string \<Rightarrow> driver \<Rightarrow> (error + unit) \<times> driver" where
  "db_exec eng sql st =
     (case exec_sql eng sql (storage st) of
        Inl e \<Rightarrow> (Inl e, st)
      | Inr db \<Rightarrow> (Inr (), st\<lparr>storage := db\<rparr>))"

definition executeRaw :: "engine \<Rightarrow> string \<Rightarrow> driver \<Rightarrow> (error + unit) \<times> driver" where
  "executeRaw eng sql st =
     (if \<not> connected st then (Inl NotConnected, st) else db_exec eng sql st)"

definition prepare :: "engine \<Rightarrow> string \<Rightarrow> driver \<Rightarrow> (error + unit) \<times> driver" where
  "prepare eng sql st =
     (if \<not> connected st then (Inl NotConnected, st)
      else (compile_sql eng sql (storage st), st))"

definition vacuum :: "engine \<Rightarrow> driver \<Rightarrow> (error + unit) \<times> driver" where
  "vacuum eng st =
     (if \<not> connected st then (Inl NotConnected, st) else db_exec eng ''VACUUM'' st)"

definition analyze :: "engine \<Rightarrow> driver \<Rightarrow> (error + unit) \<times> driver" where
  "analyze eng st =
     (if \<not> connected st then (Inl NotConnected, st) else db_exec eng ''ANALYZE'' st)"

definition beginTransaction :: "engine \<Rightarrow> driver \<Rightarrow> (error + unit) \<times> driver" where
  "beginTransaction eng st =
     (if \<not> connected st then (Inl NotConnected, st)
      else db_exec eng ''BEGIN TRANSACTION'' st)"

definition commit :: "engine \<Rightarrow> driver \<Rightarrow> (error + unit) \<times> driver" where
  "commit eng st =
     (if \<not> connected st then (Inl NotConnected, st) else db_exec eng ''COMMIT'' st)"

definition rollback :: "engine \<Rightarrow> driver \<Rightarrow> (error + unit) \<times> driver" where
  "rollback eng st =
     (if \<not> connected st then (Inl NotConnected, st) else db_exec eng ''ROLLBACK'' st)"

subsection \<open>The earlier, schema-less driver\<close>

text \<open>
  The first version of the driver has no schema; its \<open>get\<close> is the schema-less branch
  above. Its \<open>update\<close> restores \<open>_id\<close> and \<open>_createdAt\<close> after the merge.
\<close>

definition legacy_updatedRecord_of :: "jsval \<Rightarrow> obj \<Rightarrow> string \<Rightarrow> error + obj" where
  "legacy_updatedRecord_of record data now =
     (case prop_read record ''_id'' of
        Inl e \<Rightarrow> Inl e
      | Inr record_id \<Rightarrow>
          Inr (assign (updatedRecord_of record data now)
                 [(''_id'', record_id), (''_createdAt'', js_get record ''_createdAt'')]))"

fun legacy_update_loop ::
  "(nat \<Rightarrow> string) \<Rightarrow> obj \<Rightarrow> jsval list \<Rightarrow> nat \<Rightarrow> driver \<Rightarrow> (error + nat) \<times> driver" where
  "legacy_update_loop clock data [] cnt st = (Inr cnt, st)"
| "legacy_update_loop clock data (record # records) cnt st =
     (case legacy_updatedRecord_of record data (clock cnt) of
        Inl e \<Rightarrow> (Inl e, st)
      | Inr updatedRecord \<Rightarrow>
          (case sql_update [(''_data'', JSON_stringify (JObj updatedRecord)),
                            (''_updatedAt'', obj_get updatedRecord ''_updatedAt'')]
                           (obj_get updatedRecord ''_id'') (storage st) of
             Inl e \<Rightarrow> (Inl e, st)
           | Inr t \<Rightarrow>
               legacy_update_loop clock data records (Suc cnt) (st\<lparr>storage := Some t\<rparr>)))"

definition legacy_update ::
  "(nat \<Rightarrow> string) \<Rightarrow> obj \<Rightarrow> obj \<Rightarrow> driver \<Rightarrow> (error + nat) \<times> driver" where
  "legacy_update clock query data st =
     (if \<not> connected st then (Inl NotConnected, st)
      else case get query (st\<lparr>schema := None\<rparr>) of
             Inl e \<Rightarrow> (Inl e, st)
           | Inr records \<Rightarrow> legacy_update_loop clock data records 0 st)"

section \<open>Notions of the specification\<close>

text \<open>
  The normalised tag of a type descriptor, in the specification's words: a structured
  descriptor is unwrapped to its \<open>type\<close> field, and the tag is put in upper case.
\<close>

definition type_tag :: "jsval \<Rightarrow> string" where
  "type_tag d =
     toUpperCase (String (case d of
        JObj kvs \<Rightarrow> (if truthy (obj_get kvs ''type'') then obj_get kvs ''type'' else d)
      | _ \<Rightarrow> d))"

definition contains_any :: "string \<Rightarrow> string list \<Rightarrow> bool" where
  "contains_any t ws = list_ex (includes_str t) ws"

text \<open>
  At most one record, the first match or null, from the list \<open>get\<close> returns.
\<close>

definition first_or_null :: "jsval list \<Rightarrow> jsval" where
  "first_or_null rs = (case rs of [] \<Rightarrow> JNull | r # _ \<Rightarrow> r)"

text \<open>
  The logical record of a stored row, as both \<open>get\<close> and \<open>getOne\<close> build it: the
  merged columns and extras in hybrid mode, the parsed \<open>_data\<close> payload otherwise.
\<close>

definition materialise :: "driver \<Rightarrow> table \<Rightarrow> row \<Rightarrow> error + jsval" where
  "materialise st t r =
     (if hybrid st then Inr (JObj (mergeData (schema st) (row_object (star_row t r))))
      else parse_data (data_row r))"

text \<open>
  A row whose logical record is an object-like value carrying, as its \<open>_id\<close> field, the
  text of the row's \<open>_id\<close> column. Rows written by \<open>set\<close> are of this kind.
\<close>

definition row_integrity :: "driver \<Rightarrow> table \<Rightarrow> row \<Rightarrow> bool" where
  "row_integrity st t r =
     (case materialise st t r of
        Inl e \<Rightarrow> False
      | Inr record \<Rightarrow>
          record \<noteq> JNull \<and> record \<noteq> JUndefined
          \<and> (case cell r ''_id'' of
                SqlText ident \<Rightarrow> js_get record ''_id'' = JStr ident
              | _ \<Rightarrow> False))"

section \<open>Sample stores\<close>

text \<open>
  A schema-less store after \<open>connect()\<close> on an empty file and two inserts, written out
  as the state it has; \<open>users_store_reached\<close> below derives it from the operations.
\<close>

definition users_table :: table where
  "users_table =
     \<lparr>columns = schemaless_columns,
      rows =
        [[(''_id'', SqlText ''u1''),
          (''_data'', SqlText
             ''{\"name\":\"Ali\",\"role\":\"admin\",\"_id\":\"u1\",\"_createdAt\":\"t0\",\"_updatedAt\":\"t0\"}''),
          (''_createdAt'', SqlText ''t0''), (''_updatedAt'', SqlText ''t0'')],
         [(''_id'', SqlText ''u2''),
          (''_data'', SqlText
             ''{\"name\":\"Sara\",\"role\":\"user\",\"_id\":\"u2\",\"_createdAt\":\"t1\",\"_updatedAt\":\"t1\"}''),
          (''_createdAt'', SqlText ''t1''), (''_updatedAt'', SqlText ''t1'')]],
      indexes = [''idx_createdAt'', ''idx_updatedAt'']\<rparr>"

definition users_store :: driver where
  "users_store = \<lparr>connected = True, storage = Some users_table, schema = None, dbType = NoSql\<rparr>"

text \<open>
  A hybrid store with the schema \<open>{a: NUMBER, b: BOOLEAN}\<close> after \<open>connect()\<close> on an
  empty file and one insert; \<open>flags_store_reached\<close> below derives it from the operations.
\<close>

definition flags_schema :: schema where
  "flags_schema = PlainSchema [(''a'', JStr ''NUMBER''), (''b'', JStr ''BOOLEAN'')]"

definition flags_columns :: "(string \<times> string) list" where
  "flags_columns =
     [(''_id'', ''TEXT PRIMARY KEY''), (''a'', ''REAL''), (''b'', ''INTEGER''),
      (''_extras'', ''TEXT''), (''_createdAt'', ''TEXT NOT NULL''),
      (''_updatedAt'', ''TEXT NOT NULL'')]"

definition flags_table :: table where
  "flags_table =
     \<lparr>columns = flags_columns,
      rows = [[(''_id'', SqlText ''k1''), (''a'', SqlInt 1), (''b'', SqlInt 1),
               (''_extras'', SqlText ''{\"c\":\"x\"}''),
               (''_createdAt'', SqlText ''t0''), (''_updatedAt'', SqlText ''t0'')]],
      indexes = [''idx_createdAt'', ''idx_updatedAt'']\<rparr>"

definition flags_store :: driver where
  "flags_store =
     \<lparr>connected = True, storage = Some flags_table, schema = Some flags_schema, dbType = Sql\<rparr>"

text \<open>
  The file of the hybrid store, opened by a driver that was given no schema:
  \<open>reopened_flags_store_reached\<close> below derives it from \<open>connect()\<close>.
\<close>

definition reopened_flags_store :: driver where
  "reopened_flags_store =
     \<lparr>connected = True, storage = Some flags_table, schema = None, dbType = NoSql\<rparr>"

text \<open>The same stores after a raw statement has overwritten a payload with broken text.\<close>

definition broken_flags_store :: driver where
  "broken_flags_store =
     flags_store\<lparr>storage := Some (flags_table\<lparr>rows :=
        [[(''_id'', SqlText ''k1''), (''a'', SqlInt 1), (''b'', SqlInt 1),
          (''_extras'', SqlText ''{oops''),
          (''_createdAt'', SqlText ''t0''), (''_updatedAt'', SqlText ''t0'')]]\<rparr>)\<rparr>"

definition broken_users_store :: driver where
  "broken_users_store =
     users_store\<lparr>storage := Some (users_table\<lparr>rows := rows users_table @
        [[(''_id'', SqlText ''u3''), (''_data'', SqlText ''{oops''),
          (''_createdAt'', SqlText ''t2''), (''_updatedAt'', SqlText ''t2'')]]\<rparr>)\<rparr>"

section \<open>Notions used in the proofs\<close>

text \<open>
  A value that JSON carries as it is: no \<open>undefined\<close> anywhere in it, no object with
  a repeated key, and every number that is not an integer written in lowest terms
  (\<open>JDec m s\<close> with digits after the point, the last of them not 0).
\<close>

fun json_safe :: "jsval \<Rightarrow> bool" where
  "json_safe JUndefined = False"
| "json_safe JNull = True"
| "json_safe (JBool b) = True"
| "json_safe (JNum n) = True"
| "json_safe (JDec m s) = (0 < s \<and> m mod 10 \<noteq> 0)"
| "json_safe (JStr s) = True"
| "json_safe (JArr xs) = list_all json_safe xs"
| "json_safe (JObj kvs) = (distinct (map fst kvs) \<and> list_all (\<lambda>kv. json_safe (snd kv)) kvs)"

text \<open>The identifier is not the \<open>_id\<close> of any stored row.\<close>

definition fresh_id :: "string \<Rightarrow> table \<Rightarrow> bool" where
  "fresh_id ident t = list_all (\<lambda>r. sql_text (cell r ''_id'') \<noteq> Some ident) (rows t)"

text \<open>
  The tokens of the printed text of a value, and the condition on the text that follows
  a printed number: it does not continue the number.
\<close>

fun join_toks :: "token list list \<Rightarrow> token list" where
  "join_toks [] = []"
| "join_toks [x] = x"
| "join_toks (x # y # ys) = x @ TComma # join_toks (y # ys)"

fun tokens_of :: "jsval \<Rightarrow> token list" where
  "tokens_of JUndefined = [TNull]"
| "tokens_of JNull = [TNull]"
| "tokens_of (JBool b) = [if b then TTrue else TFalse]"
| "tokens_of (JNum n) = [TNumber n]"
| "tokens_of (JDec m s) = [TDecimal m s]"
| "tokens_of (JStr s) = [TString s]"
| "tokens_of (JArr xs) = TLBrack # join_toks (map tokens_of xs) @ [TRBrack]"
| "tokens_of (JObj kvs) =
     TLBrace # join_toks (map (\<lambda>kv. TString (fst kv) # TColon # tokens_of (snd kv)) kvs)
     @ [TRBrace]"

definition follow_ok :: "string \<Rightarrow> bool" where
  "follow_ok rest = (rest = [] \<or> (\<not> is_digit (hd rest) \<and> hd rest \<notin> set ''.eE''))"

fun prepend :: "token list \<Rightarrow> token list option \<Rightarrow> token list option" where
  "prepend xs None = None"
| "prepend xs (Some ts) = Some (xs @ ts)"

text \<open>A parser stack on which a value may come next, and the modes that expect a value.\<close>

definition accepts :: "frame list \<Rightarrow> bool" where
  "accepts st = (case st of [] \<Rightarrow> True | FArr acc # _ \<Rightarrow> True | FKey acc k # _ \<Rightarrow> True
                 | FObj acc # _ \<Rightarrow> False)"

definition value_mode :: "mode \<Rightarrow> bool" where
  "value_mode m = (m = MValue \<or> m = MFirst)"

section \<open>The type mapper is total and follows the ordered substring rules\<close>

lemma unwrap_descriptor:
  "(if typeof d = ''object'' \<and> d \<noteq> JNull \<and> truthy (js_get d ''type'') then js_get d ''type'' else d)
   = (case d of JObj kvs \<Rightarrow> (if truthy (obj_get kvs ''type'') then obj_get kvs ''type'' else d)
              | _ \<Rightarrow> d)"
  by (cases d) simp_all

lemma mapHawiahTypeToSQL_tag:
  "mapHawiahTypeToSQL d =
     (let t = type_tag d
      in if contains_any t [''STRING'', ''TEXT'', ''EMAIL'', ''URL'', ''UUID'', ''CHAR''] then ''TEXT''
         else if contains_any t [''NUMBER''] then
           (if contains_any t [''INT''] then ''INTEGER'' else ''REAL'')
         else if contains_any t [''BOOLEAN''] then ''INTEGER''
         else if contains_any t [''DATE''] then ''TEXT''
         else if contains_any t [''BLOB'', ''BUFFER''] then ''BLOB''
         else ''TEXT'')"
  unfolding mapHawiahTypeToSQL_def type_tag_def contains_any_def unwrap_descriptor Let_def
  by simp

lemmas mapper_eval = mapHawiahTypeToSQL_def toUpperCase_def upper_char_def obj_get_def

text \<open>
  Claim C5. For every type descriptor the mapper returns one of \<open>TEXT\<close>, \<open>INTEGER\<close>,
  \<open>REAL\<close> and \<open>BLOB\<close>, chosen by the ordered substring rules on the normalised tag:
  STRING, TEXT, EMAIL, URL, UUID or CHAR give TEXT; NUMBER gives INTEGER when the tag also
  contains INT and REAL otherwise; BOOLEAN gives INTEGER; DATE gives TEXT; BLOB or BUFFER
  give BLOB; anything else gives TEXT. In particular STRING maps to TEXT, NUMBER to REAL,
  the structured descriptor with type NUMBER_INT to INTEGER, BOOLEAN to INTEGER and an
  unknown tag to TEXT.
\<close>

theorem mapHawiahTypeToSQL_total_rules:
  "mapHawiahTypeToSQL d \<in> {''TEXT'', ''INTEGER'', ''REAL'', ''BLOB''}
   \<and> mapHawiahTypeToSQL d =
       (let t = type_tag d
        in if contains_any t [''STRING'', ''TEXT'', ''EMAIL'', ''URL'', ''UUID'', ''CHAR'']
           then ''TEXT''
           else if contains_any t [''NUMBER'']
           then (if contains_any t [''INT''] then ''INTEGER'' else ''REAL'')
           else if contains_any t [''BOOLEAN''] then ''INTEGER''
           else if contains_any t [''DATE''] then ''TEXT''
           else if contains_any t [''BLOB'', ''BUFFER''] then ''BLOB''
           else ''TEXT'')
   \<and> mapHawiahTypeToSQL (JStr ''STRING'') = ''TEXT''
   \<and> mapHawiahTypeToSQL (JStr ''NUMBER'') = ''REAL''
   \<and> mapHawiahTypeToSQL (JObj [(''type'', JStr ''NUMBER_INT'')]) = ''INTEGER''
   \<and> mapHawiahTypeToSQL (JStr ''BOOLEAN'') = ''INTEGER''
   \<and> mapHawiahTypeToSQL (JStr ''UNKNOWN_TAG'') = ''TEXT''"
proof -
  have range: "mapHawiahTypeToSQL d \<in> {''TEXT'', ''INTEGER'', ''REAL'', ''BLOB''}"
    unfolding mapHawiahTypeToSQL_tag Let_def by simp
  have e1: "mapHawiahTypeToSQL (JStr ''STRING'') = ''TEXT''" by (simp add: mapper_eval)
  have e2: "mapHawiahTypeToSQL (JStr ''NUMBER'') = ''REAL''" by (simp add: mapper_eval)
  have e3: "mapHawiahTypeToSQL (JObj [(''type'', JStr ''NUMBER_INT'')]) = ''INTEGER''"
    by (simp add: mapper_eval)
  have e4: "mapHawiahTypeToSQL (JStr ''BOOLEAN'') = ''INTEGER''" by (simp add: mapper_eval)
  have e5: "mapHawiahTypeToSQL (JStr ''UNKNOWN_TAG'') = ''TEXT''" by (simp add: mapper_eval)
  from range mapHawiahTypeToSQL_tag [of d] e1 e2 e3 e4 e5 show ?thesis by blast
qed


section \<open>Sample stores are reachable\<close>

lemma users_store_reached:
  "snd (set_op ''u2'' ''t1'' [(''name'', JStr ''Sara''), (''role'', JStr ''user'')]
     (snd (set_op ''u1'' ''t0'' [(''name'', JStr ''Ali''), (''role'', JStr ''admin'')]
        (snd (connect (new_driver None)))))) = users_store"
  by code_simp

lemma flags_store_reached:
  "snd (set_op ''k1'' ''t0'' [(''a'', JNum 1), (''b'', JBool True), (''c'', JStr ''x'')]
     (snd (connect (setSchema (Some flags_schema) (new_driver None))))) = flags_store"
  by code_simp

lemma reopened_flags_store_reached:
  "connect (new_driver (Some flags_table)) = (Inr (), reopened_flags_store)"
  by code_simp

section \<open>Operations on a disconnected driver\<close>

lemmas guarded_ops = set_op_def get_def getOne_def update_def delete_def exists_def count_def
  clear_def drop_op_def vacuum_def analyze_def beginTransaction_def commit_def rollback_def
  executeRaw_def prepare_def

text \<open>
  Claim C9. A driver is disconnected before \<open>connect()\<close> and after \<open>disconnect()\<close>.
  Every operation called on a disconnected driver fails with the not-connected error and
  leaves the driver, and with it the stored table, as it was.
\<close>

theorem disconnected_operations_fail:
  "\<not> connected (new_driver db)
   \<and> \<not> connected (disconnect st0)
   \<and> (\<not> connected st \<longrightarrow>
        ensureConnected st = Inl NotConnected
      \<and> set_op ident now data st = (Inl NotConnected, st)
      \<and> get query st = Inl NotConnected
      \<and> getOne query st = Inl NotConnected
      \<and> update clock query data st = (Inl NotConnected, st)
      \<and> delete query st = (Inl NotConnected, st)
      \<and> exists query st = Inl NotConnected
      \<and> count query st = Inl NotConnected
      \<and> clear st = (Inl NotConnected, st)
      \<and> drop_op st = (Inl NotConnected, st)
      \<and> vacuum eng st = (Inl NotConnected, st)
      \<and> analyze eng st = (Inl NotConnected, st)
      \<and> beginTransaction eng st = (Inl NotConnected, st)
      \<and> commit eng st = (Inl NotConnected, st)
      \<and> rollback eng st = (Inl NotConnected, st)
      \<and> executeRaw eng sql st = (Inl NotConnected, st)
      \<and> prepare eng sql st = (Inl NotConnected, st))"
  by (simp add: guarded_ops new_driver_def disconnect_def ensureConnected_def)

theorem disconnected_operations_fail_witness:
  "\<not> connected (disconnect users_store)
   \<and> set_op ''u3'' ''t2'' [(''a'', JNum 1)] (disconnect users_store)
       = (Inl NotConnected, disconnect users_store)
   \<and> delete [] (disconnect users_store) = (Inl NotConnected, disconnect users_store)
   \<and> storage (snd (delete [] (disconnect users_store))) = Some users_table
   \<and> get [] (new_driver (Some users_table)) = Inl NotConnected"
  using disconnected_operations_fail
    [of "Some users_table" users_store "disconnect users_store"
        "''u3''" "''t2''" "[(''a'', JNum 1)]" "[]"]
    disconnected_operations_fail
    [of "Some users_table" users_store "new_driver (Some users_table)"
        "''u3''" "''t2''" "[(''a'', JNum 1)]" "[]"]
  by (simp add: disconnect_def users_store_def)

section \<open>Counting and existence\<close>

lemma parse_rows_length: "parse_rows rs = Inr vs \<Longrightarrow> length vs = length rs"
  by (induction rs arbitrary: vs) (auto split: sum.splits)

lemma count_empty_query:
  assumes "connected st" and "get [] st = Inr rs"
  shows "count [] st = Inr (length rs)"
proof (cases "hybrid st")
  case True
  with assms show ?thesis
    by (auto simp: get_def count_def sql_select_all_def sql_count_def split: sum.splits)
next
  case False
  with assms show ?thesis
    by (auto simp: get_def count_def sql_select_data_def sql_count_def prepare_on_def
             dest!: parse_rows_length split: sum.splits option.splits if_splits)
qed

lemma count_hybrid:
  assumes "connected st" and "hybrid st"
  shows "count query st = (case get query st of Inl e \<Rightarrow> Inl e | Inr rs \<Rightarrow> Inr (length rs))"
  using assms
  by (cases query)
     (auto simp: get_def count_def sql_select_all_def sql_count_def split: sum.splits)

lemma count_filtered:
  assumes "connected st" and "query \<noteq> []"
  shows "count query st = (case get query st of Inl e \<Rightarrow> Inl e | Inr rs \<Rightarrow> Inr (length rs))"
  using assms by (cases query) (simp_all add: count_def)

text \<open>
  Claim C7, as amended. On a connected store: for a filter that is not empty, and for
  every filter in hybrid mode, \<open>count\<close> is the number of records \<open>get\<close> returns for
  that filter, and fails as \<open>get\<close> fails. For the empty filter \<open>count\<close> is the row
  count of the engine, which reads no row; it is the number of records \<open>get\<close> returns
  whenever \<open>get\<close> returns. \<open>exists\<close> is true exactly when \<open>getOne\<close> is not \<open>null\<close>,
  and fails as \<open>getOne\<close> fails.
\<close>

theorem count_exists_consistent:
  assumes "connected st"
  shows "(query \<noteq> [] \<or> hybrid st \<longrightarrow>
            count query st = (case get query st of Inl e \<Rightarrow> Inl e | Inr xs \<Rightarrow> Inr (length xs)))
       \<and> count [] st = sql_count (storage st)
       \<and> (get query st = Inr rs \<longrightarrow> count query st = Inr (length rs))
       \<and> exists query st = (case getOne query st of Inl e \<Rightarrow> Inl e | Inr r \<Rightarrow> Inr (r \<noteq> JNull))"
proof -
  have a: "get query st = Inr rs \<longrightarrow> count query st = Inr (length rs)"
  proof (cases query)
    case Nil
    with assms show ?thesis by (auto dest: count_empty_query)
  next
    case (Cons kv q)
    with assms show ?thesis by (simp add: count_def)
  qed
  have b: "query \<noteq> [] \<or> hybrid st \<longrightarrow>
      count query st = (case get query st of Inl e \<Rightarrow> Inl e | Inr xs \<Rightarrow> Inr (length xs))"
    using assms count_hybrid count_filtered by blast
  have c: "count [] st = sql_count (storage st)"
    using assms by (simp add: count_def)
  have d: "exists query st = (case getOne query st of Inl e \<Rightarrow> Inl e | Inr r \<Rightarrow> Inr (r \<noteq> JNull))"
    using assms by (simp add: exists_def)
  from a b c d show ?thesis by blast
qed

theorem count_exists_consistent_witness:
  "connected users_store
   \<and> count [(''role'', JStr ''admin'')] users_store = Inr 1
   \<and> count [(''_id'', JStr ''u1''), (''role'', JStr ''user'')] users_store = Inr 0
   \<and> count [] users_store = Inr 2
   \<and> exists [(''role'', JStr ''admin'')] users_store = Inr True
   \<and> exists [(''role'', JStr ''guest'')] users_store = Inr False
   \<and> hybrid flags_store
   \<and> count [(''c'', JStr ''x'')] flags_store = Inr 1
   \<and> count [] flags_store = Inr 1
   \<and> count [(''role'', JStr ''admin'')] broken_users_store = Inl SyntaxError"
proof -
  let ?ali = "JObj [(''name'', JStr ''Ali''), (''role'', JStr ''admin''), (''_id'', JStr ''u1''),
                    (''_createdAt'', JStr ''t0''), (''_updatedAt'', JStr ''t0'')]"
  let ?flag = "JObj [(''_id'', JStr ''k1''), (''a'', JNum 1), (''b'', JNum 1),
                     (''_createdAt'', JStr ''t0''), (''_updatedAt'', JStr ''t0''),
                     (''c'', JStr ''x'')]"
  have c: "connected users_store" by (simp add: users_store_def)
  have g: "get [(''role'', JStr ''admin'')] users_store = Inr [?ali]" by code_simp
  have g0: "get [(''_id'', JStr ''u1''), (''role'', JStr ''user'')] users_store = Inr []"
    by code_simp
  have s: "sql_count (storage users_store) = Inr 2" by code_simp
  have o1: "getOne [(''role'', JStr ''admin'')] users_store = Inr ?ali" by code_simp
  have o2: "getOne [(''role'', JStr ''guest'')] users_store = Inr JNull" by code_simp
  have cf: "connected flags_store" by (simp add: flags_store_def)
  have hf: "hybrid flags_store" by (simp add: flags_store_def hybrid_def)
  have gf: "get [(''c'', JStr ''x'')] flags_store = Inr [?flag]" by code_simp
  have ge: "get [] flags_store = Inr [?flag]" by code_simp
  have cb: "connected broken_users_store" by (simp add: broken_users_store_def users_store_def)
  have gb: "get [(''role'', JStr ''admin'')] broken_users_store = Inl SyntaxError" by code_simp
  have users: "count [(''role'', JStr ''admin'')] users_store = Inr 1
      \<and> count [(''_id'', JStr ''u1''), (''role'', JStr ''user'')] users_store = Inr 0
      \<and> count [] users_store = Inr 2
      \<and> exists [(''role'', JStr ''admin'')] users_store = Inr True
      \<and> exists [(''role'', JStr ''guest'')] users_store = Inr False"
    using g g0 s o1 o2
      count_exists_consistent [OF c, of "[(''role'', JStr ''admin'')]"]
      count_exists_consistent [OF c, of "[(''role'', JStr ''guest'')]"]
      count_exists_consistent [OF c, of "[(''_id'', JStr ''u1''), (''role'', JStr ''user'')]"]
    by simp
  have flags: "count [(''c'', JStr ''x'')] flags_store = Inr 1 \<and> count [] flags_store = Inr 1"
    using hf gf ge
      count_exists_consistent [OF cf, of "[(''c'', JStr ''x'')]"]
      count_exists_consistent [OF cf, of "[]"]
    by simp
  have broken: "count [(''role'', JStr ''admin'')] broken_users_store = Inl SyntaxError"
    using gb count_exists_consistent [OF cb, of "[(''role'', JStr ''admin'')]"]
    by simp
  from c users hf flags broken show ?thesis by blast
qed

text \<open>
  The claim as stated fails for the empty filter in schema-less mode, on a table whose
  rows \<open>get\<close> cannot read: \<open>count\<close> returns the number of rows where \<open>get\<close> throws.
  In the first store one of three payloads does not parse; the second is the table of a
  hybrid store, which has no \<open>_data\<close> column, opened without its schema.
\<close>

theorem count_empty_filter_counterexample:
  "connected broken_users_store
   \<and> count [] broken_users_store = Inr 3
   \<and> get [] broken_users_store = Inl SyntaxError
   \<and> connected reopened_flags_store
   \<and> count [] reopened_flags_store = Inr 1
   \<and> get [] reopened_flags_store = Inl SqliteError"
proof -
  have c1: "connected broken_users_store" by (simp add: broken_users_store_def users_store_def)
  have n1: "count [] broken_users_store = Inr 3" by code_simp
  have g1: "get [] broken_users_store = Inl SyntaxError" by code_simp
  have c2: "connected reopened_flags_store" by (simp add: reopened_flags_store_def)
  have n2: "count [] reopened_flags_store = Inr 1" by code_simp
  have g2: "get [] reopened_flags_store = Inl SqliteError" by code_simp
  from c1 n1 g1 c2 n2 g2 show ?thesis by blast
qed

section \<open>Lookups by identifier\<close>

lemma getOne_truthy_id:
  assumes "connected st" and "truthy (obj_get query ''_id'')"
  shows "getOne query st =
     (if hybrid st then
        (case sql_select_by_id (obj_get query ''_id'') (storage st) of
           Inl e \<Rightarrow> Inl e
         | Inr None \<Rightarrow> Inr JNull
         | Inr (Some r) \<Rightarrow> Inr (JObj (mergeData (schema st) (row_object r))))
      else
        (case sql_select_data_by_id (obj_get query ''_id'') (storage st) of
           Inl e \<Rightarrow> Inl e
         | Inr None \<Rightarrow> Inr JNull
         | Inr (Some r) \<Rightarrow> parse_data r))"
  using assms by (simp add: getOne_def)

lemma obj_get_single [simp]: "obj_get [(k, v)] k = v"
  by (simp add: obj_get_def)

text \<open>
  Claim C10. When the \<open>_id\<close> entry of the filter is truthy, \<open>getOne\<close> on a connected
  store is the primary-key lookup of that identifier and nothing else: the result is the
  one for the filter that holds the \<open>_id\<close> entry alone, it is the first row whose
  \<open>_id\<close> column matches (or \<open>null\<close>), and no other entry of the filter is evaluated.
  So whenever the lookup finds a record, \<open>getOne\<close> returns it and \<open>exists\<close> is true,
  whatever the other entries say.
\<close>

theorem getOne_truthy_id_ignores_other_entries:
  assumes "connected st" and "truthy (obj_get query ''_id'')"
  shows "getOne query st = getOne [(''_id'', obj_get query ''_id'')] st
       \<and> exists query st = exists [(''_id'', obj_get query ''_id'')] st
       \<and> (\<forall>t p. storage st = Some t \<and> has_column t ''_id'' \<and> (hybrid st \<or> has_column t ''_data'')
                 \<and> bind (obj_get query ''_id'') = Inr p \<longrightarrow>
             getOne query st =
               (case find (id_matches p) (rows t) of
                  None \<Rightarrow> Inr JNull
                | Some r \<Rightarrow> if hybrid st
                            then Inr (JObj (mergeData (schema st) (row_object (star_row t r))))
                            else parse_data (data_row r)))
       \<and> (\<forall>r. getOne [(''_id'', obj_get query ''_id'')] st = Inr r \<and> r \<noteq> JNull \<longrightarrow>
             getOne query st = Inr r \<and> exists query st = Inr True)"
proof -
  have a: "getOne query st = getOne [(''_id'', obj_get query ''_id'')] st"
    using assms by (simp add: getOne_truthy_id)
  have b: "exists query st = exists [(''_id'', obj_get query ''_id'')] st"
    using assms a by (simp add: exists_def)
  have c: "\<forall>t p. storage st = Some t \<and> has_column t ''_id'' \<and> (hybrid st \<or> has_column t ''_data'')
                 \<and> bind (obj_get query ''_id'') = Inr p \<longrightarrow>
             getOne query st =
               (case find (id_matches p) (rows t) of
                  None \<Rightarrow> Inr JNull
                | Some r \<Rightarrow> if hybrid st
                            then Inr (JObj (mergeData (schema st) (row_object (star_row t r))))
                            else parse_data (data_row r))"
    using assms
    by (auto simp: getOne_truthy_id sql_select_by_id_def sql_select_data_by_id_def prepare_on_def
          split: option.splits)
  have d: "\<forall>r. getOne [(''_id'', obj_get query ''_id'')] st = Inr r \<and> r \<noteq> JNull \<longrightarrow>
             getOne query st = Inr r \<and> exists query st = Inr True"
    using assms a by (auto simp: exists_def)
  from a b c d show ?thesis by blast
qed

theorem getOne_truthy_id_ignores_other_entries_witness:
  "connected users_store
   \<and> truthy (obj_get [(''_id'', JStr ''u2''), (''role'', JStr ''admin'')] ''_id'')
   \<and> getOne [(''_id'', JStr ''u2''), (''role'', JStr ''admin'')] users_store =
       Inr (JObj [(''name'', JStr ''Sara''), (''role'', JStr ''user''), (''_id'', JStr ''u2''),
                  (''_createdAt'', JStr ''t1''), (''_updatedAt'', JStr ''t1'')])
   \<and> exists [(''_id'', JStr ''u2''), (''role'', JStr ''admin'')] users_store = Inr True
   \<and> get [(''_id'', JStr ''u2''), (''role'', JStr ''admin'')] users_store = Inr []"
proof -
  let ?q = "[(''_id'', JStr ''u2''), (''role'', JStr ''admin'')]"
  let ?r = "JObj [(''name'', JStr ''Sara''), (''role'', JStr ''user''), (''_id'', JStr ''u2''),
                  (''_createdAt'', JStr ''t1''), (''_updatedAt'', JStr ''t1'')]"
  have c: "connected users_store" by (simp add: users_store_def)
  have k: "obj_get ?q ''_id'' = JStr ''u2''" by (simp add: obj_get_def)
  have t: "truthy (obj_get ?q ''_id'')" by (simp add: k)
  have o: "getOne [(''_id'', JStr ''u2'')] users_store = Inr ?r" by code_simp
  have g: "get ?q users_store = Inr []" by code_simp
  from getOne_truthy_id_ignores_other_entries [OF c t]
  have "\<forall>r. getOne [(''_id'', JStr ''u2'')] users_store = Inr r \<and> r \<noteq> JNull \<longrightarrow>
          getOne ?q users_store = Inr r \<and> exists ?q users_store = Inr True"
    unfolding k by blast
  with o have "getOne ?q users_store = Inr ?r \<and> exists ?q users_store = Inr True"
    by simp
  with c t g show ?thesis by simp
qed

section \<open>Splitting a record\<close>

lemma update_fresh: "k \<notin> fst ` set al \<Longrightarrow> AList.update k v al = al @ [(k, v)]"
  by (induction al) auto

lemma split_fold:
  assumes "distinct (map fst data)"
    and "fst ` set data \<inter> fst ` set sd = {}"
    and "fst ` set data \<inter> fst ` set ed = {}"
  shows "fold (\<lambda>(key, v) (schemaData, extraData).
                  if P key then (AList.update key v schemaData, extraData)
                  else if Q key then (schemaData, AList.update key v extraData)
                  else (schemaData, extraData))
              data (sd, ed)
         = (sd @ filter (\<lambda>(k, v). P k) data, ed @ filter (\<lambda>(k, v). \<not> P k \<and> Q k) data)"
  using assms
proof (induction data arbitrary: sd ed)
  case Nil
  then show ?case by simp
next
  case (Cons kv data)
  obtain k v where kv: "kv = (k, v)" by (cases kv)
  from Cons.prems kv have fresh: "k \<notin> fst ` set sd" "k \<notin> fst ` set ed" "k \<notin> fst ` set data"
    by auto
  from Cons.prems kv have d: "distinct (map fst data)"
    and i1: "fst ` set data \<inter> fst ` set sd = {}"
    and i2: "fst ` set data \<inter> fst ` set ed = {}"
    by auto
  show ?case
  proof (cases "P k")
    case True
    from fresh i1 have "fst ` set data \<inter> fst ` set (sd @ [(k, v)]) = {}" by auto
    from Cons.IH [OF d this i2] True fresh show ?thesis
      by (simp add: kv update_fresh)
  next
    case False
    show ?thesis
    proof (cases "Q k")
      case True
      from fresh i2 have "fst ` set data \<inter> fst ` set (ed @ [(k, v)]) = {}" by auto
      from Cons.IH [OF d i1 this] True \<open>\<not> P k\<close> fresh show ?thesis
        by (simp add: kv update_fresh)
    next
      case False
      from Cons.IH [OF d i1 i2] False \<open>\<not> P k\<close> show ?thesis
        by (simp add: kv)
    qed
  qed
qed

lemma splitData_filter:
  assumes "distinct (map fst data)"
  shows "splitData (Some s) data =
           (filter (\<lambda>(k, v). js_in k (definition_of s)) data,
            filter (\<lambda>(k, v). \<not> js_in k (definition_of s) \<and> k \<notin> set reserved_fields) data)"
  using split_fold [OF assms, of "[]" "[]" "\<lambda>k. js_in k (definition_of s)" "\<lambda>k. k \<notin> set reserved_fields"]
  by (simp add: splitData_def)

text \<open>
  Claim C6, as amended. With a schema set, a record with distinct field names (none of
  them the name of a member inherited from \<open>Object.prototype\<close>) is split as follows:
  \<open>schemaData\<close> holds exactly the fields whose name is a key of the definition,
  \<open>extraData\<close> holds exactly the fields that are neither keys of the definition nor
  reserved, both in the record's order; no name is in both, and a reserved field that is
  not a key of the definition is in neither. With no schema set, \<open>schemaData\<close> is empty
  and \<open>extraData\<close> is the whole record, reserved fields included.
\<close>

theorem splitData_partition:
  assumes "distinct (map fst data)"
    and "list_all (\<lambda>(k, v). k \<notin> set object_prototype_members) data"
  shows "splitData (Some s) data =
           (filter (\<lambda>(k, v). k \<in> set (map fst (definition_of s))) data,
            filter (\<lambda>(k, v). k \<notin> set (map fst (definition_of s)) \<and> k \<notin> set reserved_fields) data)
       \<and> fst ` set (fst (splitData (Some s) data)) \<inter> fst ` set (snd (splitData (Some s) data)) = {}
       \<and> splitData None data = ([], data)"
proof -
  have own: "js_in k (definition_of s) = (k \<in> set (map fst (definition_of s)))"
    if "(k, v) \<in> set data" for k v
  proof -
    from that assms(2) have "k \<notin> set object_prototype_members"
      by (auto simp: list_all_iff)
    then show ?thesis by (simp add: js_in_def)
  qed
  have f1: "filter (\<lambda>(k, v). js_in k (definition_of s)) data
          = filter (\<lambda>(k, v). k \<in> set (map fst (definition_of s))) data"
  proof (rule filter_cong [OF refl])
    fix x assume x: "x \<in> set data"
    obtain k v where "x = (k, v)" by (cases x)
    with x own [of k v]
    show "(case x of (k, v) \<Rightarrow> js_in k (definition_of s))
        = (case x of (k, v) \<Rightarrow> k \<in> set (map fst (definition_of s)))"
      by (simp only: prod.case)
  qed
  have f2: "filter (\<lambda>(k, v). \<not> js_in k (definition_of s) \<and> k \<notin> set reserved_fields) data
          = filter (\<lambda>(k, v). k \<notin> set (map fst (definition_of s)) \<and> k \<notin> set reserved_fields) data"
  proof (rule filter_cong [OF refl])
    fix x assume x: "x \<in> set data"
    obtain k v where "x = (k, v)" by (cases x)
    with x own [of k v]
    show "(case x of (k, v) \<Rightarrow> \<not> js_in k (definition_of s) \<and> k \<notin> set reserved_fields)
        = (case x of (k, v) \<Rightarrow> k \<notin> set (map fst (definition_of s)) \<and> k \<notin> set reserved_fields)"
      by (simp only: prod.case)
  qed
  have a: "splitData (Some s) data =
           (filter (\<lambda>(k, v). k \<in> set (map fst (definition_of s))) data,
            filter (\<lambda>(k, v). k \<notin> set (map fst (definition_of s)) \<and> k \<notin> set reserved_fields) data)"
    using splitData_filter [OF assms(1), of s] f1 f2 by simp
  have b: "fst ` set (fst (splitData (Some s) data)) \<inter> fst ` set (snd (splitData (Some s) data)) = {}"
    unfolding a by force
  have c: "splitData None data = ([], data)"
    by (simp add: splitData_def)
  from a b c show ?thesis by blast
qed

theorem splitData_partition_witness:
  "splitData (Some (PlainSchema [(''a'', JStr ''NUMBER''), (''b'', JStr ''BOOLEAN'')]))
     [(''a'', JNum 1), (''b'', JBool True), (''c'', JStr ''x''), (''_id'', JStr ''u1''),
      (''_createdAt'', JStr ''t0''), (''_updatedAt'', JStr ''t0'')]
   = ([(''a'', JNum 1), (''b'', JBool True)], [(''c'', JStr ''x'')])"
proof -
  let ?data = "[(''a'', JNum 1), (''b'', JBool True), (''c'', JStr ''x''), (''_id'', JStr ''u1''),
      (''_createdAt'', JStr ''t0''), (''_updatedAt'', JStr ''t0'')]"
  have d: "distinct (map fst ?data)" by simp
  have p: "list_all (\<lambda>(k, v). k \<notin> set object_prototype_members) ?data"
    by (simp add: object_prototype_members_def)
  from splitData_partition [OF d p, of "PlainSchema [(''a'', JStr ''NUMBER''), (''b'', JStr ''BOOLEAN'')]"]
  show ?thesis by (simp add: reserved_fields_def)
qed

text \<open>
  The claim as stated fails when no schema is set: the reserved field \<open>_id\<close> is put
  into \<open>extraData\<close>.
\<close>

theorem splitData_reserved_counterexample:
  "splitData None [(''_id'', JStr ''u1''), (''a'', JNum 1)]
     = ([], [(''_id'', JStr ''u1''), (''a'', JNum 1)])
   \<and> ''_id'' \<in> set reserved_fields
   \<and> (''_id'', JStr ''u1'') \<in> set (snd (splitData None [(''_id'', JStr ''u1''), (''a'', JNum 1)]))"
  by (simp add: splitData_def reserved_fields_def)

section \<open>Payloads that do not parse\<close>

lemma delete_update_same: "AList.delete k (AList.update k v al) = AList.delete k al"
  by (induction al) auto

lemma map_of_update_same: "map_of (AList.update k v al) k = Some v"
  by (simp add: update_conv')

lemma JSON_parse_empty_object: "JSON_parse ''{}'' = Some (JObj [])"
  by code_simp

lemma mergeData_broken_extras:
  assumes "truthy (obj_get row ''_extras'')"
    and "JSON_parse (String (obj_get row ''_extras'')) = None"
  shows "mergeData sch row = mergeData sch (AList.update ''_extras'' (JStr ''{}'') row)"
  using assms
  by (simp add: mergeData_def obj_get_def map_of_update_same delete_update_same
        JSON_parse_empty_object Let_def)

lemma matchesQuery_object: "\<exists>b. matchesQuery (JObj kvs) query = Inr b"
  by (induction query) (auto simp: prop_read_def)

lemma filter_records_objects:
  "list_all (\<lambda>r. \<exists>kvs. r = JObj kvs) records \<Longrightarrow> \<exists>rs. filter_records records query = Inr rs"
proof (induction records)
  case Nil
  then show ?case by simp
next
  case (Cons r records)
  then obtain kvs where r: "r = JObj kvs" by auto
  obtain b where b: "matchesQuery (JObj kvs) query = Inr b"
    using matchesQuery_object by blast
  from Cons obtain rs where "filter_records records query = Inr rs" by auto
  with r b show ?case by simp
qed

lemma get_hybrid_returns:
  assumes "connected st" and "hybrid st" and "storage st = Some t"
  shows "\<exists>rs. get query st = Inr rs"
proof -
  let ?records = "map (\<lambda>r. JObj (mergeData (schema st) (row_object r))) (map (star_row t) (rows t))"
  have "list_all (\<lambda>r. \<exists>kvs. r = JObj kvs) ?records"
    by (simp add: list_all_iff)
  then obtain rs where "filter_records ?records query = Inr rs"
    using filter_records_objects by blast
  with assms show ?thesis
    by (auto simp: get_def sql_select_all_def prepare_on_def Let_def)
qed

lemma parse_rows_broken:
  assumes "r \<in> set rs" and "parse_data r = Inl SyntaxError"
  shows "parse_rows rs = Inl SyntaxError"
  using assms
proof (induction rs)
  case Nil
  then show ?case by simp
next
  case (Cons x rs)
  have e: "\<And>e. parse_data x = Inl e \<Longrightarrow> e = SyntaxError"
    by (auto simp: parse_data_def split: option.splits)
  from Cons show ?case
    by (auto split: sum.splits dest: e)
qed

lemma get_schemaless_broken:
  assumes "connected st" and "\<not> hybrid st" and "storage st = Some t"
    and "has_column t ''_data''" and "r \<in> set (rows t)"
    and "JSON_parse (String (to_js (cell r ''_data''))) = None"
  shows "get query st = Inl SyntaxError"
proof -
  have "parse_data (data_row r) = Inl SyntaxError"
    using assms(6) by (simp add: parse_data_def data_row_def row_object_def obj_get_def)
  moreover have "data_row r \<in> set (map data_row (rows t))"
    using assms(5) by simp
  ultimately have "parse_rows (map data_row (rows t)) = Inl SyntaxError"
    by (rule parse_rows_broken [rotated])
  with assms show ?thesis
    by (simp add: get_def sql_select_data_def prepare_on_def)
qed

text \<open>
  Claim C4, as amended. In hybrid mode an \<open>_extras\<close> payload that does not parse is
  replaced by the empty mapping: the row is merged as if its payload were \<open>{}\<close>, and
  \<open>get\<close> on a connected hybrid store with a table returns; \<open>getOne\<close> never fails with
  the decode error there. In schema-less mode nothing recovers a \<open>_data\<close> payload that
  does not parse: \<open>get\<close> fails with the decode error, whatever the filter.
\<close>

theorem broken_payload_on_read:
  assumes "connected st" and "storage st = Some t"
  shows "(truthy (obj_get row ''_extras'') \<and> JSON_parse (String (obj_get row ''_extras'')) = None \<longrightarrow>
            mergeData sch row = mergeData sch (AList.update ''_extras'' (JStr ''{}'') row))
       \<and> (hybrid st \<longrightarrow> (\<exists>rs. get query st = Inr rs) \<and> getOne query st \<noteq> Inl SyntaxError)
       \<and> (\<not> hybrid st \<and> has_column t ''_data'' \<and> r \<in> set (rows t)
            \<and> JSON_parse (String (to_js (cell r ''_data''))) = None \<longrightarrow>
            get query st = Inl SyntaxError)"
proof -
  have a: "truthy (obj_get row ''_extras'') \<and> JSON_parse (String (obj_get row ''_extras'')) = None \<longrightarrow>
            mergeData sch row = mergeData sch (AList.update ''_extras'' (JStr ''{}'') row)"
    using mergeData_broken_extras by blast
  have b1: "hybrid st \<longrightarrow> (\<exists>rs. get query st = Inr rs)"
    using assms get_hybrid_returns by blast
  have b2: "hybrid st \<longrightarrow> getOne query st \<noteq> Inl SyntaxError"
  proof
    assume h: "hybrid st"
    show "getOne query st \<noteq> Inl SyntaxError"
    proof (cases "truthy (obj_get query ''_id'')")
      case True
      have "\<And>v. bind v \<noteq> Inl SyntaxError"
      proof -
        fix v show "bind v \<noteq> Inl SyntaxError" by (cases v) simp_all
      qed
      then have "\<And>v. bind v = Inl SyntaxError \<Longrightarrow> False" by blast
      with assms h True show ?thesis
        by (auto simp: getOne_def sql_select_by_id_def prepare_on_def split: sum.splits option.splits if_splits)
    next
      case False
      from b1 h obtain rs where "get query st = Inr rs" by blast
      with assms h False show ?thesis by (simp add: getOne_def)
    qed
  qed
  have c: "\<not> hybrid st \<and> has_column t ''_data'' \<and> r \<in> set (rows t)
            \<and> JSON_parse (String (to_js (cell r ''_data''))) = None \<longrightarrow>
            get query st = Inl SyntaxError"
    using assms get_schemaless_broken by blast
  from a b1 b2 c show ?thesis by blast
qed

theorem broken_payload_on_read_witness:
  "mergeData (Some flags_schema)
     [(''_id'', JStr ''k1''), (''a'', JNum 1), (''b'', JNum 1), (''_extras'', JStr ''{oops''),
      (''_createdAt'', JStr ''t0''), (''_updatedAt'', JStr ''t0'')]
   = [(''_id'', JStr ''k1''), (''a'', JNum 1), (''b'', JNum 1),
      (''_createdAt'', JStr ''t0''), (''_updatedAt'', JStr ''t0'')]
   \<and> get [] broken_flags_store =
       Inr [JObj [(''_id'', JStr ''k1''), (''a'', JNum 1), (''b'', JNum 1),
                  (''_createdAt'', JStr ''t0''), (''_updatedAt'', JStr ''t0'')]]
   \<and> getOne [(''_id'', JStr ''k1'')] broken_flags_store \<noteq> Inl SyntaxError
   \<and> get [(''role'', JStr ''admin'')] broken_users_store = Inl SyntaxError"
proof -
  let ?row = "[(''_id'', JStr ''k1''), (''a'', JNum 1), (''b'', JNum 1), (''_extras'', JStr ''{oops''),
      (''_createdAt'', JStr ''t0''), (''_updatedAt'', JStr ''t0'')]"
  let ?bad = "[(''_id'', SqlText ''u3''), (''_data'', SqlText ''{oops''),
          (''_createdAt'', SqlText ''t2''), (''_updatedAt'', SqlText ''t2'')]"
  let ?t = "users_table\<lparr>rows := rows users_table @ [?bad]\<rparr>"
  have cf: "connected broken_flags_store"
    by (simp add: broken_flags_store_def flags_store_def)
  have sf: "storage broken_flags_store = Some (flags_table\<lparr>rows :=
        [[(''_id'', SqlText ''k1''), (''a'', SqlInt 1), (''b'', SqlInt 1),
          (''_extras'', SqlText ''{oops''),
          (''_createdAt'', SqlText ''t0''), (''_updatedAt'', SqlText ''t0'')]]\<rparr>)"
    by (simp add: broken_flags_store_def)
  have hf: "hybrid broken_flags_store"
    by (simp add: broken_flags_store_def flags_store_def hybrid_def)
  have cu: "connected broken_users_store"
    by (simp add: broken_users_store_def users_store_def)
  have su: "storage broken_users_store = Some ?t"
    by (simp add: broken_users_store_def)
  have hu: "\<not> hybrid broken_users_store"
    by (simp add: broken_users_store_def users_store_def hybrid_def)
  have col: "has_column ?t ''_data''"
    by (simp add: has_column_def users_table_def schemaless_columns_def)
  have mem: "?bad \<in> set (rows ?t)" by simp
  have t1: "truthy (obj_get ?row ''_extras'')" by (simp add: obj_get_def)
  have p1: "JSON_parse (String (obj_get ?row ''_extras'')) = None" by code_simp
  have p2: "JSON_parse (String (to_js (cell ?bad ''_data''))) = None" by code_simp
  have m: "mergeData (Some flags_schema) (AList.update ''_extras'' (JStr ''{}'') ?row)
         = [(''_id'', JStr ''k1''), (''a'', JNum 1), (''b'', JNum 1),
            (''_createdAt'', JStr ''t0''), (''_updatedAt'', JStr ''t0'')]"
    by code_simp
  have g: "get [] broken_flags_store =
       Inr [JObj [(''_id'', JStr ''k1''), (''a'', JNum 1), (''b'', JNum 1),
                  (''_createdAt'', JStr ''t0''), (''_updatedAt'', JStr ''t0'')]]"
    by code_simp
  from broken_payload_on_read [OF cf sf, of ?row "Some flags_schema" "[(''_id'', JStr ''k1'')]"] t1 p1 m hf
  have a: "mergeData (Some flags_schema) ?row
         = [(''_id'', JStr ''k1''), (''a'', JNum 1), (''b'', JNum 1),
            (''_createdAt'', JStr ''t0''), (''_updatedAt'', JStr ''t0'')]"
    and b: "getOne [(''_id'', JStr ''k1'')] broken_flags_store \<noteq> Inl SyntaxError"
    by simp_all
  from broken_payload_on_read [OF cu su, of _ _ "[(''role'', JStr ''admin'')]" ?bad] hu col mem p2
  have c: "get [(''role'', JStr ''admin'')] broken_users_store = Inl SyntaxError"
    by blast
  from a b c g show ?thesis by blast
qed

text \<open>
  The claim as stated fails in schema-less mode: one row with a broken \<open>_data\<close> payload
  makes \<open>get\<close> and the lookup of that row fail with the decode error.
\<close>

theorem broken_data_read_counterexample:
  "connected broken_users_store
   \<and> get [] broken_users_store = Inl SyntaxError
   \<and> getOne [(''_id'', JStr ''u3'')] broken_users_store = Inl SyntaxError"
proof -
  have c: "connected broken_users_store"
    by (simp add: broken_users_store_def users_store_def)
  have g: "get [] broken_users_store = Inl SyntaxError" by code_simp
  have o: "getOne [(''_id'', JStr ''u3'')] broken_users_store = Inl SyntaxError" by code_simp
  from c g o show ?thesis by blast
qed

section \<open>getOne against get\<close>

lemma getOne_falsy_id:
  assumes "connected st" and "\<not> truthy (obj_get query ''_id'')"
  shows "getOne query st =
           (case get query st of Inl e \<Rightarrow> Inl e | Inr rs \<Rightarrow> Inr (first_or_null rs))"
  using assms
  by (auto simp: getOne_def first_or_null_def split: sum.splits list.splits)

lemma getOne_exact_id:
  assumes "connected st" and "truthy v" and "storage st = Some t" and "has_column t ''_id''"
    and "hybrid st \<or> has_column t ''_data''" and "bind v = Inr p"
  shows "getOne [(''_id'', v)] st =
           (case find (id_matches p) (rows t) of
              None \<Rightarrow> Inr JNull
            | Some r \<Rightarrow> materialise st t r)"
  using assms
  by (auto simp: getOne_def obj_get_def sql_select_by_id_def sql_select_data_by_id_def
        prepare_on_def materialise_def split: option.splits)

text \<open>Materialising all rows, as \<open>get\<close> does before it filters.\<close>

lemma get_by_id_integrity:
  assumes "list_all (row_integrity st t) rs"
  shows "\<exists>records. (if hybrid st
            then Inr (map (\<lambda>r. JObj (mergeData (schema st) (row_object r))) (map (star_row t) rs))
            else parse_rows (map data_row rs)) = Inr records
         \<and> (\<exists>found. filter_records records [(''_id'', JStr s)] = Inr found
              \<and> (case find (id_matches (SqlText s)) rs of
                     None \<Rightarrow> Inr JNull
                   | Some r \<Rightarrow> materialise st t r) = Inr (first_or_null found))"
  using assms
proof (induction rs)
  case Nil
  then show ?case by (simp add: first_or_null_def)
next
  case (Cons r rs)
  then obtain records found where
    recs: "(if hybrid st
            then Inr (map (\<lambda>r. JObj (mergeData (schema st) (row_object r))) (map (star_row t) rs))
            else parse_rows (map data_row rs)) = Inr records"
    and found: "filter_records records [(''_id'', JStr s)] = Inr found"
    and look: "(case find (id_matches (SqlText s)) rs of
                     None \<Rightarrow> Inr JNull
                   | Some r \<Rightarrow> materialise st t r) = Inr (first_or_null found)"
    by auto
  from Cons.prems obtain rc ident where
    m: "materialise st t r = Inr rc" and nn: "rc \<noteq> JNull" "rc \<noteq> JUndefined"
    and c: "cell r ''_id'' = SqlText ident" and i: "js_get rc ''_id'' = JStr ident"
    by (auto simp: row_integrity_def split: sum.splits sqlval.splits)
  have mq: "matchesQuery rc [(''_id'', JStr s)] = Inr (ident = s)"
    using nn i by (simp add: prop_read_def)
  have im: "id_matches (SqlText s) r = (ident = s)"
    using c by (simp add: id_matches_def)
  show ?case
  proof (cases "hybrid st")
    case True
    with m have rec: "rc = JObj (mergeData (schema st) (row_object (star_row t r)))"
      by (simp add: materialise_def)
    from True recs found look mq im m rec show ?thesis
      by (auto simp: first_or_null_def)
  next
    case False
    with m have pd: "parse_data (data_row r) = Inr rc"
      by (simp add: materialise_def)
    from False recs found look mq im m pd show ?thesis
      by (auto simp: first_or_null_def)
  qed
qed

lemma getOne_exact_id_is_first_of_get:
  assumes "connected st" and "storage st = Some t" and "has_column t ''_id''"
    and "hybrid st \<or> has_column t ''_data''"
    and "list_all (row_integrity st t) (rows t)" and "s \<noteq> []"
  shows "getOne [(''_id'', JStr s)] st =
           (case get [(''_id'', JStr s)] st of
              Inl e \<Rightarrow> Inl e
            | Inr rs \<Rightarrow> Inr (first_or_null rs))"
proof -
  from get_by_id_integrity [OF assms(5), of s] obtain records found where
    recs: "(if hybrid st
            then Inr (map (\<lambda>r. JObj (mergeData (schema st) (row_object r))) (map (star_row t) (rows t)))
            else parse_rows (map data_row (rows t))) = Inr records"
    and found: "filter_records records [(''_id'', JStr s)] = Inr found"
    and look: "(case find (id_matches (SqlText s)) (rows t) of
                     None \<Rightarrow> Inr JNull
                   | Some r \<Rightarrow> materialise st t r) = Inr (first_or_null found)"
    by blast
  have g: "get [(''_id'', JStr s)] st = Inr found"
    using assms(1,2,4) recs found
    by (auto simp: get_def sql_select_all_def sql_select_data_def prepare_on_def Let_def
          split: if_splits)
  have "getOne [(''_id'', JStr s)] st = Inr (first_or_null found)"
    using getOne_exact_id [OF assms(1) _ assms(2,3,4), of "JStr s" "SqlText s"] assms(6) look
    by simp
  with g show ?thesis by simp
qed

text \<open>
  Where \<open>getOne\<close> does agree with \<open>get\<close>. On a connected store: when the \<open>_id\<close>
  entry of the filter is absent or falsy, \<open>getOne\<close> is the first record of \<open>get\<close> on
  that filter, or \<open>null\<close> when there is none, and it fails as \<open>get\<close> fails. When the
  filter is exactly \<open>{_id: v}\<close> with \<open>v\<close> truthy, the result is the record of the
  first row whose \<open>_id\<close> column matches \<open>v\<close>, or \<open>null\<close>: a lookup by primary key.
  For a non-empty string \<open>v\<close>, on a table whose rows all carry their \<open>_id\<close> column as
  the \<open>_id\<close> field of their record, that lookup is again the first record of \<open>get\<close>
  on the filter, or \<open>null\<close>.
\<close>

lemma getOne_first_of_get_or_key_lookup:
  assumes "connected st"
  shows "(\<not> truthy (obj_get query ''_id'') \<longrightarrow>
            getOne query st =
              (case get query st of Inl e \<Rightarrow> Inl e | Inr rs \<Rightarrow> Inr (first_or_null rs)))
       \<and> (truthy v \<and> storage st = Some t \<and> has_column t ''_id''
            \<and> (hybrid st \<or> has_column t ''_data'') \<and> bind v = Inr p \<longrightarrow>
            getOne [(''_id'', v)] st =
              (case find (id_matches p) (rows t) of
                 None \<Rightarrow> Inr JNull
               | Some r \<Rightarrow> materialise st t r))
       \<and> (s \<noteq> [] \<and> storage st = Some t \<and> has_column t ''_id''
            \<and> (hybrid st \<or> has_column t ''_data'') \<and> list_all (row_integrity st t) (rows t) \<longrightarrow>
            getOne [(''_id'', JStr s)] st =
              (case get [(''_id'', JStr s)] st of
                 Inl e \<Rightarrow> Inl e
               | Inr rs \<Rightarrow> Inr (first_or_null rs)))"
  using assms getOne_falsy_id getOne_exact_id getOne_exact_id_is_first_of_get
  by blast

lemma getOne_first_of_get_or_key_lookup_example:
  "connected users_store
   \<and> getOne [(''role'', JStr ''user'')] users_store =
       Inr (JObj [(''name'', JStr ''Sara''), (''role'', JStr ''user''), (''_id'', JStr ''u2''),
                  (''_createdAt'', JStr ''t1''), (''_updatedAt'', JStr ''t1'')])
   \<and> getOne [(''_id'', JStr ''u2'')] users_store =
       Inr (JObj [(''name'', JStr ''Sara''), (''role'', JStr ''user''), (''_id'', JStr ''u2''),
                  (''_createdAt'', JStr ''t1''), (''_updatedAt'', JStr ''t1'')])
   \<and> getOne [(''_id'', JStr ''u9'')] users_store = Inr JNull"
proof -
  let ?sara = "JObj [(''name'', JStr ''Sara''), (''role'', JStr ''user''), (''_id'', JStr ''u2''),
                  (''_createdAt'', JStr ''t1''), (''_updatedAt'', JStr ''t1'')]"
  have c: "connected users_store" by (simp add: users_store_def)
  have s: "storage users_store = Some users_table" by (simp add: users_store_def)
  have h: "\<not> hybrid users_store" by (simp add: users_store_def hybrid_def)
  have col: "has_column users_table ''_id''" "has_column users_table ''_data''"
    by (simp_all add: has_column_def users_table_def schemaless_columns_def)
  have f: "\<not> truthy (obj_get [(''role'', JStr ''user'')] ''_id'')" by (simp add: obj_get_def)
  have g1: "get [(''role'', JStr ''user'')] users_store = Inr [?sara]" by code_simp
  have g2: "get [(''_id'', JStr ''u2'')] users_store = Inr [?sara]" by code_simp
  have i: "list_all (row_integrity users_store users_table) (rows users_table)" by code_simp
  have l: "(case find (id_matches (SqlText ''u9'')) (rows users_table) of
                 None \<Rightarrow> Inr JNull
               | Some r \<Rightarrow> materialise users_store users_table r) = Inr JNull"
    by code_simp
  note th = getOne_first_of_get_or_key_lookup [OF c]
  from th [where query = "[(''role'', JStr ''user'')]"] f g1
  have a: "getOne [(''role'', JStr ''user'')] users_store = Inr ?sara"
    by (simp add: first_or_null_def)
  from th [where s = "''u2''" and t = users_table] s col i g2
  have b: "getOne [(''_id'', JStr ''u2'')] users_store = Inr ?sara"
    by (simp add: first_or_null_def)
  from th [where v = "JStr ''u9''" and t = users_table and p = "SqlText ''u9''"] s col l
  have d: "getOne [(''_id'', JStr ''u9'')] users_store = Inr JNull"
    by simp
  from c a b d show ?thesis by blast
qed

text \<open>
  A number given as \<open>_id\<close> is bound as a \<open>REAL\<close> value, which the key column compares
  as the text \<open>5.0\<close>: it does not find the row whose key is the text \<open>5\<close>. The payload
  of that row holds a number with a fraction.
\<close>

lemma getOne_number_id_example:
  "getOne [(''_id'', JNum 5)]
     (users_store\<lparr>storage := Some (users_table\<lparr>rows :=
        [[(''_id'', SqlText ''5''), (''_data'', SqlText ''{\"a\":1.5,\"b\":-2e-3}''),
          (''_createdAt'', SqlText ''t0''), (''_updatedAt'', SqlText ''t0'')]]\<rparr>)\<rparr>) = Inr JNull
   \<and> getOne [(''_id'', JStr ''5'')]
     (users_store\<lparr>storage := Some (users_table\<lparr>rows :=
        [[(''_id'', SqlText ''5''), (''_data'', SqlText ''{\"a\":1.5,\"b\":-2e-3}''),
          (''_createdAt'', SqlText ''t0''), (''_updatedAt'', SqlText ''t0'')]]\<rparr>)\<rparr>)
     = Inr (JObj [(''a'', JDec 15 1), (''b'', JDec (- 2) 3)])"
  by code_simp

text \<open>
  Claim C3 fails on the code. \<open>getOne\<close> is documented to return the first matching
  record or \<open>null\<close>. On the store of two users, for the filter
  \<open>{_id: "u1", role: "user"}\<close>, \<open>get\<close> returns no record and \<open>count\<close> is 0, since the
  record of \<open>u1\<close> has the role \<open>admin\<close>; \<open>getOne\<close> returns that record, which does
  not match the filter, and \<open>exists\<close> is true: \<open>getOne\<close> takes the lookup by \<open>_id\<close>
  whenever the filter has a truthy \<open>_id\<close>, and does not test the other entries.
\<close>

theorem getOne_returns_record_not_matching_filter:
  "connected users_store
   \<and> get [(''_id'', JStr ''u1''), (''role'', JStr ''user'')] users_store = Inr []
   \<and> count [(''_id'', JStr ''u1''), (''role'', JStr ''user'')] users_store = Inr 0
   \<and> getOne [(''_id'', JStr ''u1''), (''role'', JStr ''user'')] users_store =
       Inr (JObj [(''name'', JStr ''Ali''), (''role'', JStr ''admin''), (''_id'', JStr ''u1''),
                  (''_createdAt'', JStr ''t0''), (''_updatedAt'', JStr ''t0'')])
   \<and> matchesQuery
         (JObj [(''name'', JStr ''Ali''), (''role'', JStr ''admin''), (''_id'', JStr ''u1''),
                (''_createdAt'', JStr ''t0''), (''_updatedAt'', JStr ''t0'')])
         [(''_id'', JStr ''u1''), (''role'', JStr ''user'')] = Inr False
   \<and> exists [(''_id'', JStr ''u1''), (''role'', JStr ''user'')] users_store = Inr True"
proof -
  have c: "connected users_store" by (simp add: users_store_def)
  have g: "get [(''_id'', JStr ''u1''), (''role'', JStr ''user'')] users_store = Inr []"
    by code_simp
  have n: "count [(''_id'', JStr ''u1''), (''role'', JStr ''user'')] users_store = Inr 0"
    by code_simp
  have o: "getOne [(''_id'', JStr ''u1''), (''role'', JStr ''user'')] users_store =
       Inr (JObj [(''name'', JStr ''Ali''), (''role'', JStr ''admin''), (''_id'', JStr ''u1''),
                  (''_createdAt'', JStr ''t0''), (''_updatedAt'', JStr ''t0'')])"
    by code_simp
  have m: "matchesQuery
         (JObj [(''name'', JStr ''Ali''), (''role'', JStr ''admin''), (''_id'', JStr ''u1''),
                (''_createdAt'', JStr ''t0''), (''_updatedAt'', JStr ''t0'')])
         [(''_id'', JStr ''u1''), (''role'', JStr ''user'')] = Inr False"
    by code_simp
  have e: "exists [(''_id'', JStr ''u1''), (''role'', JStr ''user'')] users_store = Inr True"
    by code_simp
  from c g n o m e show ?thesis by blast
qed

section \<open>Booleans read back in hybrid mode\<close>

text \<open>
  Claim C1 fails on the code. With the schema \<open>{a: NUMBER, b: BOOLEAN}\<close>, the record
  \<open>{a: 1, b: true, c: "x"}\<close> is stored with \<open>b\<close> as the integer 1 and read back with
  \<open>b\<close> as the number 1: \<open>mergeData\<close> casts a column only when its declared type is the
  lower-case string \<open>boolean\<close>, while the type mapper accepts the tag in any case.
\<close>

theorem hybrid_boolean_read_back_as_number:
  "fst (set_op ''k1'' ''t0'' [(''a'', JNum 1), (''b'', JBool True), (''c'', JStr ''x'')]
          (snd (connect (setSchema (Some flags_schema) (new_driver None)))))
     = Inr [(''a'', JNum 1), (''b'', JBool True), (''c'', JStr ''x''), (''_id'', JStr ''k1''),
            (''_createdAt'', JStr ''t0''), (''_updatedAt'', JStr ''t0'')]
   \<and> snd (set_op ''k1'' ''t0'' [(''a'', JNum 1), (''b'', JBool True), (''c'', JStr ''x'')]
          (snd (connect (setSchema (Some flags_schema) (new_driver None))))) = flags_store
   \<and> getOne [(''_id'', JStr ''k1'')] flags_store
     = Inr (JObj [(''_id'', JStr ''k1''), (''a'', JNum 1), (''b'', JNum 1),
                  (''_createdAt'', JStr ''t0''), (''_updatedAt'', JStr ''t0''),
                  (''c'', JStr ''x'')])
   \<and> cast_column (JStr ''BOOLEAN'') (JNum 1) = JNum 1
   \<and> cast_column (JStr ''boolean'') (JNum 1) = JBool True
   \<and> mapHawiahTypeToSQL (JStr ''BOOLEAN'') = mapHawiahTypeToSQL (JStr ''boolean'')"
proof -
  have a: "fst (set_op ''k1'' ''t0'' [(''a'', JNum 1), (''b'', JBool True), (''c'', JStr ''x'')]
          (snd (connect (setSchema (Some flags_schema) (new_driver None)))))
     = Inr [(''a'', JNum 1), (''b'', JBool True), (''c'', JStr ''x''), (''_id'', JStr ''k1''),
            (''_createdAt'', JStr ''t0''), (''_updatedAt'', JStr ''t0'')]"
    by code_simp
  have b: "getOne [(''_id'', JStr ''k1'')] flags_store
     = Inr (JObj [(''_id'', JStr ''k1''), (''a'', JNum 1), (''b'', JNum 1),
                  (''_createdAt'', JStr ''t0''), (''_updatedAt'', JStr ''t0''),
                  (''c'', JStr ''x'')])"
    by code_simp
  have c: "cast_column (JStr ''BOOLEAN'') (JNum 1) = JNum 1" by code_simp
  have d: "cast_column (JStr ''boolean'') (JNum 1) = JBool True" by code_simp
  have e: "mapHawiahTypeToSQL (JStr ''BOOLEAN'') = mapHawiahTypeToSQL (JStr ''boolean'')"
    by code_simp
  from a b c d e flags_store_reached show ?thesis by blast
qed

section \<open>Identity fields under update\<close>

text \<open>
  Claim C2 fails on the code in schema-less mode. A patch that holds \<open>_id\<close> or
  \<open>_createdAt\<close> overwrites both in the persisted record: the current \<open>update\<close> no
  longer restores them after the merge, as the earlier driver does. In hybrid mode the two
  columns are never written by \<open>update\<close>.
\<close>

theorem schemaless_update_overwrites_identity:
  "update (\<lambda>i. ''t9'') [(''role'', JStr ''admin'')]
      [(''_id'', JStr ''zz''), (''_createdAt'', JStr ''never''), (''name'', JStr ''new'')]
      users_store
     = (Inr 1, users_store\<lparr>storage := Some (users_table\<lparr>rows :=
          [[(''_id'', SqlText ''u1''),
            (''_data'', SqlText
               ''{\"name\":\"new\",\"role\":\"admin\",\"_id\":\"zz\",\"_createdAt\":\"never\",\"_updatedAt\":\"t9\"}''),
            (''_createdAt'', SqlText ''t0''), (''_updatedAt'', SqlText ''t9'')],
           rows users_table ! 1]\<rparr>)\<rparr>)
   \<and> get [(''role'', JStr ''admin'')]
        (snd (update (\<lambda>i. ''t9'') [(''role'', JStr ''admin'')]
                [(''_id'', JStr ''zz''), (''_createdAt'', JStr ''never''), (''name'', JStr ''new'')]
                users_store))
     = Inr [JObj [(''name'', JStr ''new''), (''role'', JStr ''admin''), (''_id'', JStr ''zz''),
                  (''_createdAt'', JStr ''never''), (''_updatedAt'', JStr ''t9'')]]
   \<and> get [(''role'', JStr ''admin'')]
        (snd (legacy_update (\<lambda>i. ''t9'') [(''role'', JStr ''admin'')]
                [(''_id'', JStr ''zz''), (''_createdAt'', JStr ''never''), (''name'', JStr ''new'')]
                users_store))
     = Inr [JObj [(''name'', JStr ''new''), (''role'', JStr ''admin''), (''_id'', JStr ''u1''),
                  (''_createdAt'', JStr ''t0''), (''_updatedAt'', JStr ''t9'')]]
   \<and> get []
        (snd (update (\<lambda>i. ''t9'') []
                [(''_id'', JStr ''zz''), (''_createdAt'', JStr ''never''), (''name'', JStr ''new'')]
                flags_store))
     = Inr [JObj [(''_id'', JStr ''k1''), (''a'', JNum 1), (''b'', JNum 1),
                  (''_createdAt'', JStr ''t0''), (''_updatedAt'', JStr ''t9''),
                  (''c'', JStr ''x''), (''name'', JStr ''new'')]]"
proof -
  have a: "update (\<lambda>i. ''t9'') [(''role'', JStr ''admin'')]
      [(''_id'', JStr ''zz''), (''_createdAt'', JStr ''never''), (''name'', JStr ''new'')]
      users_store
     = (Inr 1, users_store\<lparr>storage := Some (users_table\<lparr>rows :=
          [[(''_id'', SqlText ''u1''),
            (''_data'', SqlText
               ''{\"name\":\"new\",\"role\":\"admin\",\"_id\":\"zz\",\"_createdAt\":\"never\",\"_updatedAt\":\"t9\"}''),
            (''_createdAt'', SqlText ''t0''), (''_updatedAt'', SqlText ''t9'')],
           rows users_table ! 1]\<rparr>)\<rparr>)"
    by code_simp
  have b: "get [(''role'', JStr ''admin'')]
        (users_store\<lparr>storage := Some (users_table\<lparr>rows :=
          [[(''_id'', SqlText ''u1''),
            (''_data'', SqlText
               ''{\"name\":\"new\",\"role\":\"admin\",\"_id\":\"zz\",\"_createdAt\":\"never\",\"_updatedAt\":\"t9\"}''),
            (''_createdAt'', SqlText ''t0''), (''_updatedAt'', SqlText ''t9'')],
           rows users_table ! 1]\<rparr>)\<rparr>)
     = Inr [JObj [(''name'', JStr ''new''), (''role'', JStr ''admin''), (''_id'', JStr ''zz''),
                  (''_createdAt'', JStr ''never''), (''_updatedAt'', JStr ''t9'')]]"
    by code_simp
  have c: "get [(''role'', JStr ''admin'')]
        (snd (legacy_update (\<lambda>i. ''t9'') [(''role'', JStr ''admin'')]
                [(''_id'', JStr ''zz''), (''_createdAt'', JStr ''never''), (''name'', JStr ''new'')]
                users_store))
     = Inr [JObj [(''name'', JStr ''new''), (''role'', JStr ''admin''), (''_id'', JStr ''u1''),
                  (''_createdAt'', JStr ''t0''), (''_updatedAt'', JStr ''t9'')]]"
    by code_simp
  have d: "get []
        (snd (update (\<lambda>i. ''t9'') []
                [(''_id'', JStr ''zz''), (''_createdAt'', JStr ''never''), (''name'', JStr ''new'')]
                flags_store))
     = Inr [JObj [(''_id'', JStr ''k1''), (''a'', JNum 1), (''b'', JNum 1),
                  (''_createdAt'', JStr ''t0''), (''_updatedAt'', JStr ''t9''),
                  (''c'', JStr ''x''), (''name'', JStr ''new'')]]"
    by code_simp
  from a b c d show ?thesis by simp
qed

section \<open>The JSON codec round trip\<close>

subsection \<open>Numbers\<close>

lemma digit_char_props:
  "is_digit (digit_char d)" "digit_val (digit_char d) = d mod 10"
  "digit_char d \<noteq> CHR ''-''"
proof -
  have "d mod 10 = 0 \<or> d mod 10 = 1 \<or> d mod 10 = 2 \<or> d mod 10 = 3 \<or> d mod 10 = 4
      \<or> d mod 10 = 5 \<or> d mod 10 = 6 \<or> d mod 10 = 7 \<or> d mod 10 = 8 \<or> d mod 10 = 9"
    by arith
  then show "is_digit (digit_char d)" "digit_val (digit_char d) = d mod 10"
    "digit_char d \<noteq> CHR ''-''"
    by (auto simp: is_digit_def digit_val_def)
qed

lemma digit_char_nonzero: "0 < d \<Longrightarrow> d < 10 \<Longrightarrow> digit_char d \<noteq> CHR ''0''"
proof -
  assume "0 < d" "d < 10"
  then have "d = 1 \<or> d = 2 \<or> d = 3 \<or> d = 4 \<or> d = 5 \<or> d = 6 \<or> d = 7 \<or> d = 8 \<or> d = 9"
    by arith
  then show ?thesis by auto
qed

lemma digits_of_nonempty: "digits_of n \<noteq> []"
  by (subst digits_of.simps) simp

lemma digits_of_digits: "list_all is_digit (digits_of n)"
proof (induction n rule: digits_of.induct)
  case (1 n)
  then show ?case
    by (subst digits_of.simps) (simp add: digit_char_props del: digit_char.simps)
qed

lemma nat_of_digits_snoc:
  "nat_of_digits (ds @ [d]) = 10 * nat_of_digits ds + digit_val d"
  by (simp add: nat_of_digits_def)

lemma nat_of_digits_of: "nat_of_digits (digits_of n) = n"
proof (induction n rule: digits_of.induct)
  case (1 n)
  show ?case
  proof (cases "n < 10")
    case True
    then show ?thesis
      by (subst digits_of.simps)
         (simp add: nat_of_digits_def digit_char_props del: digit_char.simps)
  next
    case False
    with 1 show ?thesis
      by (subst digits_of.simps)
         (simp add: nat_of_digits_snoc digit_char_props del: digit_char.simps)
  qed
qed

lemma digits_of_hd: "0 < n \<Longrightarrow> hd (digits_of n) \<noteq> CHR ''0''"
proof (induction n rule: digits_of.induct)
  case (1 n)
  show ?case
  proof (cases "n < 10")
    case True
    with 1(2) show ?thesis
      by (subst digits_of.simps) (simp add: digit_char_nonzero del: digit_char.simps)
  next
    case False
    then have "0 < n div 10" by simp
    with 1(1) False have "hd (digits_of (n div 10)) \<noteq> CHR ''0''" by simp
    with False show ?thesis
      by (subst digits_of.simps) (simp add: digits_of_nonempty)
  qed
qed

lemma digits_of_length: "1 < length (digits_of n) \<Longrightarrow> 0 < n"
  by (subst (asm) digits_of.simps) (auto split: if_splits)

lemma takeWhile_digits:
  assumes "list_all is_digit ds" and "follow_ok rest"
  shows "takeWhile is_digit (ds @ rest) = ds" and "dropWhile is_digit (ds @ rest) = rest"
proof -
  from assms(2) have t: "takeWhile is_digit rest = []" and d: "dropWhile is_digit rest = rest"
    by (cases rest; simp add: follow_ok_def)+
  from assms(1) have a: "\<forall>x \<in> set ds. is_digit x" by (simp add: list_all_iff)
  from a t show "takeWhile is_digit (ds @ rest) = ds"
    by (simp add: takeWhile_append2)
  from a d show "dropWhile is_digit (ds @ rest) = rest"
    by (simp add: dropWhile_append2)
qed

lemma number_token_plain:
  "number_token neg M 0 0 = TNumber (if neg then - int M else int M)"
  by (simp add: number_token_def)

lemma lex_fraction_none: "follow_ok rest \<Longrightarrow> lex_fraction rest = Some ([], rest)"
  by (auto simp: lex_fraction_def follow_ok_def)

lemma lex_exponent_none: "follow_ok rest \<Longrightarrow> lex_exponent rest = Some (0, rest)"
  by (auto simp: lex_exponent_def follow_ok_def)

lemma lex_number_nat:
  assumes "follow_ok rest"
  shows "lex_number (digits_of n @ rest) = Some (TNumber (int n), rest)"
proof -
  have ne: "digits_of n @ rest \<noteq> []" by (simp add: digits_of_nonempty)
  have "is_digit (hd (digits_of n))"
    using digits_of_digits [of n] digits_of_nonempty [of n]
    by (cases "digits_of n") simp_all
  then have h: "hd (digits_of n @ rest) \<noteq> CHR ''-''"
    by (auto simp: digits_of_nonempty is_digit_def)
  have z: "\<not> (1 < length (digits_of n) \<and> hd (digits_of n) = CHR ''0'')"
    using digits_of_hd digits_of_length by blast
  show ?thesis
    using h z takeWhile_digits [OF digits_of_digits assms, of n]
    by (simp add: lex_number_def Let_def nat_of_digits_of digits_of_nonempty number_token_plain
          lex_fraction_none [OF assms] lex_exponent_none [OF assms])
qed

lemma lex_number_int:
  assumes "follow_ok rest"
  shows "lex_number (show_int i @ rest) = Some (TNumber i, rest)"
proof (cases "i < 0")
  case True
  have z: "\<not> (1 < length (digits_of (nat (- i))) \<and> hd (digits_of (nat (- i))) = CHR ''0'')"
    using digits_of_hd digits_of_length by blast
  from True z takeWhile_digits [OF digits_of_digits assms, of "nat (- i)"] show ?thesis
    by (simp add: lex_number_def show_int_def Let_def nat_of_digits_of digits_of_nonempty
          number_token_plain lex_fraction_none [OF assms] lex_exponent_none [OF assms])
next
  case False
  with lex_number_nat [OF assms, of "nat i"] show ?thesis
    by (simp add: show_int_def)
qed


lemma takeWhile_digits_then:
  assumes "list_all is_digit ds" and "rest = [] \<or> \<not> is_digit (hd rest)"
  shows "takeWhile is_digit (ds @ rest) = ds" and "dropWhile is_digit (ds @ rest) = rest"
proof -
  from assms(2) have t: "takeWhile is_digit rest = []" and d: "dropWhile is_digit rest = rest"
    by (cases rest; simp)+
  from assms(1) have a: "\<forall>x \<in> set ds. is_digit x" by (simp add: list_all_iff)
  from a t show "takeWhile is_digit (ds @ rest) = ds"
    by (simp add: takeWhile_append2)
  from a d show "dropWhile is_digit (ds @ rest) = rest"
    by (simp add: dropWhile_append2)
qed

lemma nat_of_digits_zeros: "nat_of_digits (replicate n (CHR ''0'') @ ds) = nat_of_digits ds"
proof -
  have "foldl (\<lambda>a d. 10 * a + digit_val d) 0 (replicate n (CHR ''0'')) = 0"
    by (induction n) (simp_all add: digit_val_def)
  then show ?thesis by (simp add: nat_of_digits_def)
qed

lemma lex_fraction_digits:
  assumes "list_all is_digit fp" and "fp \<noteq> []" and "rest = [] \<or> \<not> is_digit (hd rest)"
  shows "lex_fraction (CHR ''.'' # fp @ rest) = Some (fp, rest)"
  using assms(2) takeWhile_digits_then [OF assms(1,3)]
  by (simp add: lex_fraction_def)

lemma lex_exponent_digits:
  assumes "follow_ok rest"
  shows "lex_exponent (CHR ''e'' # CHR ''-'' # digits_of n @ rest) = Some (- int n, rest)"
    and "lex_exponent (CHR ''e'' # CHR ''+'' # digits_of n @ rest) = Some (int n, rest)"
  using takeWhile_digits [OF digits_of_digits assms, of n]
  by (simp_all add: lex_exponent_def Let_def nat_of_digits_of digits_of_nonempty)

lemma lex_number_parts:
  assumes "list_all is_digit ip" and "ip \<noteq> []" and "\<not> (1 < length ip \<and> hd ip = CHR ''0'')"
    and "r = [] \<or> \<not> is_digit (hd r)"
    and "lex_fraction r = Some (fp, r')" and "lex_exponent r' = Some (E, r'')"
  shows "lex_number (ip @ r)
           = Some (number_token False (nat_of_digits (ip @ fp)) (length fp) E, r'')"
    and "lex_number (CHR ''-'' # ip @ r)
           = Some (number_token True (nat_of_digits (ip @ fp)) (length fp) E, r'')"
proof -
  have h: "hd (ip @ r) \<noteq> CHR ''-''"
    using assms(1,2) by (cases ip) (auto simp: is_digit_def)
  note tw = takeWhile_digits_then [OF assms(1,4)]
  from h tw assms(2,3,5,6)
  show "lex_number (ip @ r)
           = Some (number_token False (nat_of_digits (ip @ fp)) (length fp) E, r'')"
    by (simp add: lex_number_def Let_def)
  from tw assms(2,3,5,6)
  show "lex_number (CHR ''-'' # ip @ r)
           = Some (number_token True (nat_of_digits (ip @ fp)) (length fp) E, r'')"
    by (simp add: lex_number_def Let_def)
qed

lemma normalise_lowest: "m mod 10 \<noteq> 0 \<Longrightarrow> 0 < s \<Longrightarrow> normalise m s = (m, s)"
  by (cases s) simp_all

lemma number_token_decimal:
  assumes "m mod 10 \<noteq> 0" and "0 < s" and "int k - E = int s"
  shows "number_token (m < 0) (nat \<bar>m\<bar>) k E = TDecimal m s"
proof -
  from assms(2) obtain t where s: "s = Suc t" by (cases s) auto
  have mant: "(if m < 0 then - int (nat \<bar>m\<bar>) else int (nat \<bar>m\<bar>)) = m" by simp
  have n: "normalise m (Suc t) = (m, Suc t)" using normalise_lowest [OF assms(1,2)] s by simp
  have sc: "nat (int k - E) = Suc t" "\<not> int k - E \<le> 0" using assms(3) s by simp_all
  show ?thesis
    unfolding number_token_def Let_def mant using sc n s by simp
qed

lemma lex_number_fraction_text:
  assumes "m mod 10 \<noteq> 0" and "0 < s" and "follow_ok rest"
  shows "lex_number (js_fraction_text m s @ rest) = Some (TDecimal m s, rest)"
proof -
  define M where "M = nat \<bar>m\<bar>"
  define ds where "ds = digits_of M"
  define p where "p = int (length ds) - int s"
  define body where "body =
      (if 0 < p \<and> p \<le> 21 then take (nat p) ds @ ''.'' @ drop (nat p) ds
       else if - 6 < p \<and> p \<le> 0 then ''0.'' @ replicate (nat (- p)) (CHR ''0'') @ ds
       else hd ds # (if length ds = 1 then [] else ''.'' @ tl ds) @ ''e''
            @ (if p - 1 < 0 then ''-'' else ''+'') @ digits_of (nat \<bar>p - 1\<bar>))"
  have jt: "js_fraction_text m s = (if m < 0 then CHR ''-'' # body else body)"
    by (simp add: js_fraction_text_def Let_def body_def ds_def M_def p_def)
  have Mpos: "0 < M" using assms(1) by (auto simp: M_def)
  have dig: "list_all is_digit ds" by (simp add: ds_def digits_of_digits)
  have ne: "ds \<noteq> []" by (simp add: ds_def digits_of_nonempty)
  have hd0: "hd ds \<noteq> CHR ''0''" using Mpos by (simp add: ds_def digits_of_hd)
  have hdd: "is_digit (hd ds)" using dig ne by (cases ds) simp_all
  have val: "nat_of_digits ds = M" by (simp add: ds_def nat_of_digits_of)
  have nd: "rest = [] \<or> \<not> is_digit (hd rest)" using assms(3) by (auto simp: follow_ok_def)
  have key: "\<exists>k E. int k - E = int s
        \<and> lex_number (body @ rest) = Some (number_token False M k E, rest)
        \<and> lex_number (CHR ''-'' # body @ rest) = Some (number_token True M k E, rest)"
  proof (cases "0 < p \<and> p \<le> 21")
    case True
    let ?ip = "take (nat p) ds" and ?fp = "drop (nat p) ds"
    have b: "body = ?ip @ CHR ''.'' # ?fp" using True by (simp add: body_def)
    have lt: "nat p < length ds" using True assms(2) unfolding p_def by linarith
    have i1: "list_all is_digit ?ip" using dig by (auto simp: list_all_iff dest: in_set_takeD)
    have i2: "?ip \<noteq> []" using True ne by simp
    have i3: "\<not> (1 < length ?ip \<and> hd ?ip = CHR ''0'')" using True hd0 by simp
    have f1: "list_all is_digit ?fp" using dig by (auto simp: list_all_iff dest: in_set_dropD)
    have f2: "?fp \<noteq> []" using lt by simp
    have r: "CHR ''.'' # ?fp @ rest = [] \<or> \<not> is_digit (hd (CHR ''.'' # ?fp @ rest))"
      by (simp add: is_digit_def)
    have lf: "lex_fraction (CHR ''.'' # ?fp @ rest) = Some (?fp, rest)"
      using f1 f2 nd by (rule lex_fraction_digits)
    have le: "lex_exponent rest = Some (0, rest)" using assms(3) by (rule lex_exponent_none)
    have "int (length ds - nat p) = int s" using True unfolding p_def by arith
    then have len: "int (length ?fp) - 0 = int s" by simp
    from lex_number_parts [OF i1 i2 i3 r lf le] b val len show ?thesis
      by (intro exI [of _ "length ?fp"] exI [of _ 0]) simp
  next
    case False
    note notA = False
    show ?thesis
    proof (cases "- 6 < p \<and> p \<le> 0")
      case True
      let ?fp = "replicate (nat (- p)) (CHR ''0'') @ ds"
      have "body = ''0.'' @ replicate (nat (- p)) (CHR ''0'') @ ds"
        unfolding body_def by (subst if_not_P [OF notA], subst if_P [OF True], rule refl)
      then have b: "body = ''0'' @ CHR ''.'' # ?fp" by simp
      have i1: "list_all is_digit ''0''" by (simp add: is_digit_def)
      have i3: "\<not> (1 < length ''0'' \<and> hd ''0'' = CHR ''0'')" by simp
      have z: "is_digit (CHR ''0'')" by (simp add: is_digit_def)
      have f1: "list_all is_digit ?fp" using dig z by (auto simp: list_all_iff)
      have f2: "?fp \<noteq> []" using ne by simp
      have r: "CHR ''.'' # ?fp @ rest = [] \<or> \<not> is_digit (hd (CHR ''.'' # ?fp @ rest))"
        by (simp add: is_digit_def)
      have lf: "lex_fraction (CHR ''.'' # ?fp @ rest) = Some (?fp, rest)"
        using f1 f2 nd by (rule lex_fraction_digits)
      have le: "lex_exponent rest = Some (0, rest)" using assms(3) by (rule lex_exponent_none)
      have v: "nat_of_digits (''0'' @ ?fp) = M"
        using nat_of_digits_zeros [of "Suc (nat (- p))" ds] val by simp
      have "int (nat (- p) + length ds) = int s" using True unfolding p_def by arith
      then have len: "int (length ?fp) - 0 = int s" by simp
      from lex_number_parts [OF i1 _ i3 r lf le] b v len show ?thesis
        by (intro exI [of _ "length ?fp"] exI [of _ 0]) simp
    next
      case False
      note notB = False
      have b0: "body = hd ds # (if length ds = 1 then [] else ''.'' @ tl ds) @ ''e''
            @ (if p - 1 < 0 then ''-'' else ''+'') @ digits_of (nat \<bar>p - 1\<bar>)"
        unfolding body_def by (subst if_not_P [OF notA], subst if_not_P [OF notB], rule refl)
      let ?n = "nat \<bar>p - 1\<bar>"
      let ?ex = "CHR ''e'' # (if p - 1 < 0 then ''-'' else ''+'') @ digits_of ?n @ rest"
      have le: "lex_exponent ?ex = Some (p - 1, rest)"
        using lex_exponent_digits [OF assms(3), of ?n] by (cases "p - 1 < 0") simp_all
      have i1: "list_all is_digit [hd ds]" using hdd by simp
      have i3: "\<not> (1 < length [hd ds] \<and> hd [hd ds] = CHR ''0'')" by simp
      show ?thesis
      proof (cases "length ds = 1")
        case True
        have b: "body @ rest = [hd ds] @ ?ex" using True b0 by simp
        have d1: "ds = [hd ds]" using True by (cases ds) simp_all
        have r: "?ex = [] \<or> \<not> is_digit (hd ?ex)" by (simp add: is_digit_def)
        have lf: "lex_fraction ?ex = Some ([], ?ex)" by (simp add: lex_fraction_def)
        have v: "nat_of_digits ([hd ds] @ []) = M" using d1 val by simp
        have len: "int (length ([] :: string)) - (p - 1) = int s" using True by (simp add: p_def)
        from lex_number_parts [OF i1 _ i3 r lf le] b v len show ?thesis
          by (intro exI [of _ 0] exI [of _ "p - 1"]) simp
      next
        case False
        have b: "body @ rest = [hd ds] @ CHR ''.'' # tl ds @ ?ex"
          using False b0 by simp
        have f1: "list_all is_digit (tl ds)" using dig ne by (cases ds) simp_all
        have f2: "tl ds \<noteq> []" using False ne by (cases ds) auto
        have e: "?ex = [] \<or> \<not> is_digit (hd ?ex)" by (simp add: is_digit_def)
        have r: "CHR ''.'' # tl ds @ ?ex = [] \<or> \<not> is_digit (hd (CHR ''.'' # tl ds @ ?ex))"
          by (simp add: is_digit_def)
        have lf: "lex_fraction (CHR ''.'' # tl ds @ ?ex) = Some (tl ds, ?ex)"
          using f1 f2 e by (rule lex_fraction_digits)
        have v: "nat_of_digits ([hd ds] @ tl ds) = M" using ne val by simp
        have len: "int (length (tl ds)) - (p - 1) = int s" using ne by (cases ds) (simp_all add: p_def)
        from lex_number_parts [OF i1 _ i3 r lf le] b v len show ?thesis
          by (intro exI [of _ "length (tl ds)"] exI [of _ "p - 1"]) simp
      qed
    qed
  qed
  then obtain k E where ke: "int k - E = int s"
    and pos: "lex_number (body @ rest) = Some (number_token False M k E, rest)"
    and neg: "lex_number (CHR ''-'' # body @ rest) = Some (number_token True M k E, rest)"
    by blast
  from number_token_decimal [OF assms(1,2) ke] have tok: "number_token (m < 0) M k E = TDecimal m s"
    by (simp add: M_def)
  show ?thesis
  proof (cases "m < 0")
    case True
    with jt neg tok show ?thesis by simp
  next
    case False
    with jt pos tok show ?thesis by simp
  qed
qed

lemma lex_number_head:
  assumes "lex_number xs = Some y"
  shows "xs \<noteq> [] \<and> (hd xs = CHR ''-'' \<or> is_digit (hd xs))"
proof -
  have tw: "\<And>ys. takeWhile is_digit ys \<noteq> [] \<Longrightarrow> ys \<noteq> [] \<and> is_digit (hd ys)"
  proof -
    fix ys :: string
    assume "takeWhile is_digit ys \<noteq> []"
    then show "ys \<noteq> [] \<and> is_digit (hd ys)" by (cases ys) (auto split: if_splits)
  qed
  show ?thesis
  proof (cases "xs \<noteq> [] \<and> hd xs = CHR ''-''")
    case True
    then show ?thesis by simp
  next
    case False
    with assms have "takeWhile is_digit xs \<noteq> []"
      by (auto simp: lex_number_def Let_def split: if_splits)
    from tw [OF this] show ?thesis by simp
  qed
qed

lemma show_dec_lowest: "m mod 10 \<noteq> 0 \<Longrightarrow> 0 < s \<Longrightarrow> show_dec m s = js_fraction_text m s"
  by (cases s) (simp_all add: show_dec_def)

lemma js_fraction_text_nonempty: "js_fraction_text m s \<noteq> []"
  by (simp add: js_fraction_text_def Let_def)

lemma lex_number_show_dec:
  assumes "m mod 10 \<noteq> 0" and "0 < s" and "follow_ok rest"
  shows "lex_number (show_dec m s @ rest) = Some (TDecimal m s, rest)"
    and "\<exists>c cs. show_dec m s = c # cs \<and> (c = CHR ''-'' \<or> is_digit c)"
proof -
  show n: "lex_number (show_dec m s @ rest) = Some (TDecimal m s, rest)"
    using lex_number_fraction_text [OF assms] show_dec_lowest [OF assms(1,2)] by simp
  have ne: "show_dec m s \<noteq> []"
    using show_dec_lowest [OF assms(1,2)] js_fraction_text_nonempty by simp
  then obtain c cs where s: "show_dec m s = c # cs" by (cases "show_dec m s") auto
  from lex_number_head [OF n] s have "c = CHR ''-'' \<or> is_digit c" by simp
  with s show "\<exists>c cs. show_dec m s = c # cs \<and> (c = CHR ''-'' \<or> is_digit c)" by blast
qed

subsection \<open>Strings\<close>

lemma hex_val_hex_char: "k < 16 \<Longrightarrow> hex_val (hex_char k) = Some k"
proof -
  assume "k < 16"
  then have "k = 0 \<or> k = 1 \<or> k = 2 \<or> k = 3 \<or> k = 4 \<or> k = 5 \<or> k = 6 \<or> k = 7 \<or> k = 8
      \<or> k = 9 \<or> k = 10 \<or> k = 11 \<or> k = 12 \<or> k = 13 \<or> k = 14 \<or> k = 15"
    by arith
  then show ?thesis
    by (elim disjE) (simp_all add: hex_char_def hex_val_def)
qed

lemma unicode_escape_control:
  assumes "(of_char c :: nat) < 32"
  shows "unicode_escape [CHR ''0'', CHR ''0'', hex_char (of_char c div 16), hex_char (of_char c)] = Some c"
proof -
  let ?n = "of_char c :: nat"
  have a: "hex_val (hex_char (?n div 16)) = Some (?n div 16)"
    using assms by (intro hex_val_hex_char) simp
  have "hex_char ?n = hex_char (?n mod 16)" by (simp add: hex_char_def)
  then have b: "hex_val (hex_char ?n) = Some (?n mod 16)"
    by (simp add: hex_val_hex_char)
  have z: "hex_val CHR ''0'' = Some 0" by (simp add: hex_val_def)
  have "char_of (16 * (?n div 16) + ?n mod 16) = c" by simp
  with a b z show ?thesis by (simp add: unicode_escape_def)
qed

lemma lex_string_escape:
  assumes "lex_string (body @ rest) = Some (s, rest')"
  shows "lex_string (escape_char c @ body @ rest) = Some (c # s, rest')"
proof -
  consider (quote) "c = CHR 0x22" | (bslash) "c = CHR 0x5C"
    | (short) "c \<in> {CHR 0x08, CHR 0x0C, CHR 0x0A, CHR 0x0D, CHR 0x09}"
    | (ctrl) "c \<noteq> CHR 0x22" "c \<noteq> CHR 0x5C"
        "c \<notin> {CHR 0x08, CHR 0x0C, CHR 0x0A, CHR 0x0D, CHR 0x09}" "(of_char c :: nat) < 32"
    | (plain) "c \<noteq> CHR 0x22" "c \<noteq> CHR 0x5C" "\<not> (of_char c :: nat) < 32"
    by fastforce
  then show ?thesis
  proof cases
    case quote
    with assms show ?thesis by (simp add: escape_char_def unescape_def)
  next
    case bslash
    with assms show ?thesis by (simp add: escape_char_def unescape_def)
  next
    case short
    with assms show ?thesis by (auto simp: escape_char_def unescape_def)
  next
    case ctrl
    with assms unicode_escape_control [OF ctrl(4)] show ?thesis
      by (simp add: escape_char_def)
  next
    case plain
    then have "escape_char c = [c]"
      by (auto simp: escape_char_def)
    with plain assms show ?thesis by simp
  qed
qed

lemma lex_string_quote:
  "lex_string (concat (map escape_char s) @ CHR 0x22 # rest) = Some (s, rest)"
proof (induction s)
  case Nil
  then show ?case by simp
next
  case (Cons c s)
  from lex_string_escape [of "concat (map escape_char s)" "CHR 0x22 # rest", OF Cons, of c]
  show ?case by simp
qed

subsection \<open>Lexing a printed value\<close>

lemma prepend_prepend [simp]: "prepend xs (prepend ys r) = prepend (xs @ ys) r"
  by (cases r) simp_all

lemma map_option_Cons [simp]: "map_option (Cons t) r = prepend [t] r"
  by (cases r) simp_all

lemma lex_punct:
  "lex (CHR ''{'' # cs) = map_option (Cons TLBrace) (lex cs)"
  "lex (CHR ''}'' # cs) = map_option (Cons TRBrace) (lex cs)"
  "lex (CHR ''['' # cs) = map_option (Cons TLBrack) (lex cs)"
  "lex (CHR '']'' # cs) = map_option (Cons TRBrack) (lex cs)"
  "lex (CHR '':'' # cs) = map_option (Cons TColon) (lex cs)"
  "lex (CHR '','' # cs) = map_option (Cons TComma) (lex cs)"
  by (simp_all add: lex.simps(2) is_ws_def)

lemma lex_words:
  "lex (''null'' @ cs) = map_option (Cons TNull) (lex cs)"
  "lex (''true'' @ cs) = map_option (Cons TTrue) (lex cs)"
  "lex (''false'' @ cs) = map_option (Cons TFalse) (lex cs)"
  by (simp_all add: lex.simps(2) is_ws_def is_digit_def)

lemma lex_quote: "lex (quote s @ cs) = map_option (Cons (TString s)) (lex cs)"
  using lex_string_quote [of s cs]
  by (simp add: quote_def lex.simps(2) is_ws_def)

lemma show_int_head:
  "\<exists>c cs. show_int i = c # cs \<and> (c = CHR ''-'' \<or> is_digit c)"
proof (cases "i < 0")
  case True
  then show ?thesis by (simp add: show_int_def)
next
  case False
  obtain c cs where d: "digits_of (nat i) = c # cs"
    using digits_of_nonempty [of "nat i"] by (cases "digits_of (nat i)") auto
  with digits_of_digits [of "nat i"] have "is_digit c" by simp
  with False d show ?thesis by (simp add: show_int_def)
qed

lemma lex_show_int:
  assumes "follow_ok cs"
  shows "lex (show_int i @ cs) = map_option (Cons (TNumber i)) (lex cs)"
proof -
  obtain c ds where s: "show_int i = c # ds" and h: "c = CHR ''-'' \<or> is_digit c"
    using show_int_head by blast
  have n: "lex_number (c # ds @ cs) = Some (TNumber i, cs)"
    using lex_number_int [OF assms, of i] s by simp
  have p: "\<not> is_ws c" "c \<noteq> CHR ''{''" "c \<noteq> CHR ''}''" "c \<noteq> CHR ''[''" "c \<noteq> CHR '']''"
    "c \<noteq> CHR '':''" "c \<noteq> CHR '',''" "c \<noteq> CHR 0x22"
    using h by (auto simp: is_ws_def is_digit_def)
  have "lex (c # ds @ cs) = map_option (Cons (TNumber i)) (lex cs)"
    using p h n by (subst lex.simps(2)) simp
  with s show ?thesis by simp
qed

lemma lex_show_dec:
  assumes "m mod 10 \<noteq> 0" and "0 < s" and "follow_ok cs"
  shows "lex (show_dec m s @ cs) = map_option (Cons (TDecimal m s)) (lex cs)"
proof -
  obtain c ds where sd: "show_dec m s = c # ds" and h: "c = CHR ''-'' \<or> is_digit c"
    using lex_number_show_dec(2) [OF assms] by blast
  have n: "lex_number (c # ds @ cs) = Some (TDecimal m s, cs)"
    using lex_number_show_dec(1) [OF assms] sd by simp
  have p: "\<not> is_ws c" "c \<noteq> CHR ''{''" "c \<noteq> CHR ''}''" "c \<noteq> CHR ''[''" "c \<noteq> CHR '']''"
    "c \<noteq> CHR '':''" "c \<noteq> CHR '',''" "c \<noteq> CHR 0x22"
    using h by (auto simp: is_ws_def is_digit_def)
  have "lex (c # ds @ cs) = map_option (Cons (TDecimal m s)) (lex cs)"
    using p h n by (subst lex.simps(2)) simp
  with sd show ?thesis by simp
qed

lemma follow_ok_simps [simp]:
  "follow_ok []" "follow_ok (CHR '','' # cs)" "follow_ok (CHR '']'' # cs)"
  "follow_ok (CHR ''}'' # cs)"
  by (simp_all add: follow_ok_def is_digit_def)

lemma lex_elements:
  assumes "\<And>x cs. x \<in> set xs \<Longrightarrow> follow_ok cs \<Longrightarrow>
             lex (json_text x @ cs) = prepend (tokens_of x) (lex cs)"
  shows "lex (join '','' (map json_text xs) @ CHR '']'' # cs)
       = prepend (join_toks (map tokens_of xs) @ [TRBrack]) (lex cs)"
  using assms
proof (induction xs rule: induct_list012)
  case 1
  then show ?case by (simp add: lex_punct)
next
  case (2 x)
  then show ?case by (simp add: lex_punct)
next
  case (3 x y zs)
  have "lex (json_text x @ CHR '','' # join '','' (map json_text (y # zs)) @ CHR '']'' # cs)
      = prepend (tokens_of x) (lex (CHR '','' # join '','' (map json_text (y # zs)) @ CHR '']'' # cs))"
    using 3(3) [of x] by simp
  moreover have "lex (join '','' (map json_text (y # zs)) @ CHR '']'' # cs)
      = prepend (join_toks (map tokens_of (y # zs)) @ [TRBrack]) (lex cs)"
    using 3(2) 3(3) by simp
  ultimately show ?case
    by (simp add: lex_punct)
qed

lemma lex_members:
  assumes "\<And>kv cs. kv \<in> set kvs \<Longrightarrow> follow_ok cs \<Longrightarrow>
             lex (json_text (snd kv) @ cs) = prepend (tokens_of (snd kv)) (lex cs)"
  shows "lex (join '','' (map (\<lambda>(k, v). quote k @ '':'' @ json_text v) kvs) @ CHR ''}'' # cs)
       = prepend (join_toks (map (\<lambda>kv. TString (fst kv) # TColon # tokens_of (snd kv)) kvs)
                  @ [TRBrace]) (lex cs)"
  using assms
proof (induction kvs rule: induct_list012)
  case 1
  then show ?case by (simp add: lex_punct)
next
  case (2 kv)
  obtain k v where kv: "kv = (k, v)" by (cases kv)
  from 2 [of kv] kv show ?case
    by (simp add: lex_punct lex_quote)
next
  case (3 kv y zs)
  obtain k v where kv: "kv = (k, v)" by (cases kv)
  have a: "lex (json_text v @ CHR '','' # join '','' (map (\<lambda>(k, v). quote k @ '':'' @ json_text v) (y # zs)) @ CHR ''}'' # cs)
      = prepend (tokens_of v)
          (lex (CHR '','' # join '','' (map (\<lambda>(k, v). quote k @ '':'' @ json_text v) (y # zs)) @ CHR ''}'' # cs))"
    using 3(3) [of kv] kv by simp
  have b: "lex (join '','' (map (\<lambda>(k, v). quote k @ '':'' @ json_text v) (y # zs)) @ CHR ''}'' # cs)
      = prepend (join_toks (map (\<lambda>kv. TString (fst kv) # TColon # tokens_of (snd kv)) (y # zs))
                  @ [TRBrace]) (lex cs)"
    using 3(2) 3(3) by simp
  from a b kv show ?case
    by (simp add: lex_punct lex_quote)
qed

lemma filter_defined:
  "list_all (\<lambda>kv. json_safe (snd kv)) kvs \<Longrightarrow> filter (\<lambda>(k, v). v \<noteq> JUndefined) kvs = kvs"
  by (induction kvs) auto

lemma lex_json_text:
  "json_safe v \<Longrightarrow> follow_ok cs \<Longrightarrow>
     lex (json_text v @ cs) = prepend (tokens_of v) (lex cs)"
proof (induction v arbitrary: cs)
  case JUndefined
  then show ?case by simp
next
  case JNull
  then show ?case using lex_words(1) [of cs] by simp
next
  case (JBool b)
  then show ?case using lex_words(2,3) [of cs] by simp
next
  case (JNum n)
  then show ?case by (simp add: lex_show_int)
next
  case (JDec m s)
  then show ?case by (simp add: lex_show_dec)
next
  case (JStr s)
  then show ?case by (simp add: lex_quote)
next
  case (JArr xs)
  have "\<And>x cs. x \<in> set xs \<Longrightarrow> follow_ok cs \<Longrightarrow>
          lex (json_text x @ cs) = prepend (tokens_of x) (lex cs)"
    using JArr by (simp add: list_all_iff)
  from lex_elements [OF this, of xs cs] show ?case
    by (simp add: lex_punct)
next
  case (JObj kvs)
  have "\<And>kv cs. kv \<in> set kvs \<Longrightarrow> follow_ok cs \<Longrightarrow>
          lex (json_text (snd kv) @ cs) = prepend (tokens_of (snd kv)) (lex cs)"
  proof -
    fix kv cs assume m: "kv \<in> set kvs" and f: "follow_ok cs"
    obtain k v where kv: "kv = (k, v)" by (cases kv)
    from m kv JObj.prems(1) have "json_safe v" by (auto simp: list_all_iff)
    with JObj.IH [of kv v cs] m kv f
    show "lex (json_text (snd kv) @ cs) = prepend (tokens_of (snd kv)) (lex cs)"
      by simp
  qed
  from lex_members [OF this, of kvs cs] JObj.prems(1) show ?case
    by (simp add: lex_punct filter_defined)
qed

subsection \<open>Parsing the tokens of a printed value\<close>

lemma run_append: "run s (ts @ us) = (case run s ts of None \<Rightarrow> None | Some s' \<Rightarrow> run s' us)"
  by (induction ts arbitrary: s) (auto split: option.splits)

lemma accepts_simps [simp]:
  "accepts []" "accepts (FArr acc # st)" "accepts (FKey kvs k # st)" "\<not> accepts (FObj kvs # st)"
  by (simp_all add: accepts_def)

lemma push_accepts: "accepts st \<Longrightarrow> \<exists>s'. push v st = Some s'"
  by (cases "(v, st)" rule: push.cases) simp_all

lemma run_elements:
  assumes "\<And>x st m ts. x \<in> set xs \<Longrightarrow> accepts st \<Longrightarrow> value_mode m \<Longrightarrow>
             run (st, m) (tokens_of x @ ts) = (case push x st of None \<Rightarrow> None | Some s' \<Rightarrow> run s' ts)"
  shows "run (FArr acc # st, MAfter) (concat (map (\<lambda>x. TComma # tokens_of x) xs) @ ts)
       = run (FArr (acc @ xs) # st, MAfter) ts"
  using assms
proof (induction xs arbitrary: acc)
  case Nil
  then show ?case by simp
next
  case (Cons x xs)
  have "run (FArr acc # st, MValue) (tokens_of x @ concat (map (\<lambda>x. TComma # tokens_of x) xs) @ ts)
      = run (FArr (acc @ [x]) # st, MAfter) (concat (map (\<lambda>x. TComma # tokens_of x) xs) @ ts)"
    using Cons.prems [of x "FArr acc # st" MValue] by (simp add: value_mode_def)
  moreover have "run (FArr (acc @ [x]) # st, MAfter) (concat (map (\<lambda>x. TComma # tokens_of x) xs) @ ts)
      = run (FArr ((acc @ [x]) @ xs) # st, MAfter) ts"
    using Cons.IH [of "acc @ [x]"] Cons.prems by simp
  ultimately show ?case by simp
qed

lemma join_toks_Cons:
  "join_toks (x # xs) = x @ concat (map (\<lambda>y. TComma # y) xs)"
  by (induction xs arbitrary: x) simp_all

lemma run_array:
  assumes "\<And>x st m ts. x \<in> set xs \<Longrightarrow> accepts st \<Longrightarrow> value_mode m \<Longrightarrow>
             run (st, m) (tokens_of x @ ts) = (case push x st of None \<Rightarrow> None | Some s' \<Rightarrow> run s' ts)"
    and "accepts st" and "value_mode m"
  shows "run (st, m) (tokens_of (JArr xs) @ ts)
       = (case push (JArr xs) st of None \<Rightarrow> None | Some s' \<Rightarrow> run s' ts)"
proof -
  have start: "step (st, m) TLBrack = Some (FArr [] # st, MFirst)"
    using assms(3) by (auto simp: value_mode_def)
  show ?thesis
  proof (cases xs)
    case Nil
    with start show ?thesis by simp
  next
    case (Cons x ys)
    have a: "run (FArr [] # st, MFirst) (tokens_of x @ concat (map (\<lambda>x. TComma # tokens_of x) ys) @ TRBrack # ts)
        = run (FArr [x] # st, MAfter) (concat (map (\<lambda>x. TComma # tokens_of x) ys) @ TRBrack # ts)"
      using assms(1) [of x "FArr [] # st" MFirst] Cons by (simp add: value_mode_def)
    have b: "run (FArr [x] # st, MAfter) (concat (map (\<lambda>x. TComma # tokens_of x) ys) @ TRBrack # ts)
        = run (FArr ([x] @ ys) # st, MAfter) (TRBrack # ts)"
      using run_elements [where xs = ys and st = st and acc = "[x]" and ts = "TRBrack # ts"]
        assms(1) Cons by simp
    have c: "concat (map ((#) TComma \<circ> tokens_of) ys) = concat (map (\<lambda>x. TComma # tokens_of x) ys)"
      by (simp add: comp_def)
    from start a b Cons show ?thesis
      by (simp add: join_toks_Cons c)
  qed
qed

lemma run_members:
  assumes "\<And>kv st m ts. kv \<in> set kvs \<Longrightarrow> accepts st \<Longrightarrow> value_mode m \<Longrightarrow>
             run (st, m) (tokens_of (snd kv) @ ts)
               = (case push (snd kv) st of None \<Rightarrow> None | Some s' \<Rightarrow> run s' ts)"
    and "distinct (map fst kvs)" and "fst ` set kvs \<inter> fst ` set acc = {}"
  shows "run (FObj acc # st, MAfter)
           (concat (map (\<lambda>kv. TComma # TString (fst kv) # TColon # tokens_of (snd kv)) kvs) @ ts)
       = run (FObj (acc @ kvs) # st, MAfter) ts"
  using assms
proof (induction kvs arbitrary: acc)
  case Nil
  then show ?case by simp
next
  case (Cons kv kvs)
  obtain k v where kv: "kv = (k, v)" by (cases kv)
  from Cons.prems(3) kv have fresh: "k \<notin> fst ` set acc" by auto
  then have upd: "AList.update k v acc = acc @ [(k, v)]"
    by (induction acc) auto
  have "run (FKey acc k # st, MValue)
          (tokens_of v @ concat (map (\<lambda>kv. TComma # TString (fst kv) # TColon # tokens_of (snd kv)) kvs) @ ts)
      = run (FObj (acc @ [(k, v)]) # st, MAfter)
          (concat (map (\<lambda>kv. TComma # TString (fst kv) # TColon # tokens_of (snd kv)) kvs) @ ts)"
    using Cons.prems(1) [of kv "FKey acc k # st" MValue] kv upd by (simp add: value_mode_def)
  moreover have "run (FObj (acc @ [(k, v)]) # st, MAfter)
          (concat (map (\<lambda>kv. TComma # TString (fst kv) # TColon # tokens_of (snd kv)) kvs) @ ts)
      = run (FObj ((acc @ [(k, v)]) @ kvs) # st, MAfter) ts"
  proof (rule Cons.IH)
    show "distinct (map fst kvs)" using Cons.prems(2) by simp
    show "fst ` set kvs \<inter> fst ` set (acc @ [(k, v)]) = {}"
      using Cons.prems(2,3) kv by auto
    show "\<And>kv st m ts. kv \<in> set kvs \<Longrightarrow> accepts st \<Longrightarrow> value_mode m \<Longrightarrow>
             run (st, m) (tokens_of (snd kv) @ ts)
               = (case push (snd kv) st of None \<Rightarrow> None | Some s' \<Rightarrow> run s' ts)"
      using Cons.prems(1) by simp
  qed
  ultimately show ?case using kv by simp
qed

lemma run_object:
  assumes "\<And>kv st m ts. kv \<in> set kvs \<Longrightarrow> accepts st \<Longrightarrow> value_mode m \<Longrightarrow>
             run (st, m) (tokens_of (snd kv) @ ts)
               = (case push (snd kv) st of None \<Rightarrow> None | Some s' \<Rightarrow> run s' ts)"
    and "distinct (map fst kvs)" and "accepts st" and "value_mode m"
  shows "run (st, m) (tokens_of (JObj kvs) @ ts)
       = (case push (JObj kvs) st of None \<Rightarrow> None | Some s' \<Rightarrow> run s' ts)"
proof -
  have start: "step (st, m) TLBrace = Some (FObj [] # st, MKeyFirst)"
    using assms(4) by (auto simp: value_mode_def)
  show ?thesis
  proof (cases kvs)
    case Nil
    with start show ?thesis by simp
  next
    case (Cons kv ys)
    obtain k v where kv: "kv = (k, v)" by (cases kv)
    let ?more = "concat (map (\<lambda>kv. TComma # TString (fst kv) # TColon # tokens_of (snd kv)) ys)"
    have a: "run (FKey [] k # st, MValue) (tokens_of v @ ?more @ TRBrace # ts)
        = run (FObj [(k, v)] # st, MAfter) (?more @ TRBrace # ts)"
      using assms(1) [of kv "FKey [] k # st" MValue] Cons kv by (simp add: value_mode_def)
    have b: "run (FObj [(k, v)] # st, MAfter) (?more @ TRBrace # ts)
        = run (FObj ([(k, v)] @ ys) # st, MAfter) (TRBrace # ts)"
    proof (rule run_members)
      show "distinct (map fst ys)" using assms(2) Cons by simp
      show "fst ` set ys \<inter> fst ` set [(k, v)] = {}" using assms(2) Cons kv by auto
      show "\<And>kv st m ts. kv \<in> set ys \<Longrightarrow> accepts st \<Longrightarrow> value_mode m \<Longrightarrow>
             run (st, m) (tokens_of (snd kv) @ ts)
               = (case push (snd kv) st of None \<Rightarrow> None | Some s' \<Rightarrow> run s' ts)"
        using assms(1) Cons by simp
    qed
    have c: "concat (map ((#) TComma \<circ> (\<lambda>kv. TString (fst kv) # TColon # tokens_of (snd kv))) ys) = ?more"
      by (simp add: comp_def)
    from start a b Cons kv show ?thesis
      by (simp add: join_toks_Cons c)
  qed
qed

lemma run_tokens_of:
  "json_safe v \<Longrightarrow> accepts st \<Longrightarrow> value_mode m \<Longrightarrow>
     run (st, m) (tokens_of v @ ts) = (case push v st of None \<Rightarrow> None | Some s' \<Rightarrow> run s' ts)"
proof (induction v arbitrary: st m ts)
  case JUndefined
  then show ?case by simp
next
  case JNull
  then show ?case by (auto simp: value_mode_def)
next
  case (JBool b)
  then show ?case by (auto simp: value_mode_def)
next
  case (JNum n)
  then show ?case by (auto simp: value_mode_def)
next
  case (JDec m s)
  then show ?case by (auto simp: value_mode_def)
next
  case (JStr s)
  then show ?case by (auto simp: value_mode_def)
next
  case (JArr xs)
  show ?case
  proof (rule run_array)
    show "accepts st" "value_mode m" using JArr.prems by simp_all
    show "\<And>x st m ts. x \<in> set xs \<Longrightarrow> accepts st \<Longrightarrow> value_mode m \<Longrightarrow>
             run (st, m) (tokens_of x @ ts) = (case push x st of None \<Rightarrow> None | Some s' \<Rightarrow> run s' ts)"
      using JArr.IH JArr.prems(1) by (simp add: list_all_iff)
  qed
next
  case (JObj kvs)
  show ?case
  proof (rule run_object)
    show "accepts st" "value_mode m" "distinct (map fst kvs)" using JObj.prems by simp_all
    show "\<And>kv st m ts. kv \<in> set kvs \<Longrightarrow> accepts st \<Longrightarrow> value_mode m \<Longrightarrow>
             run (st, m) (tokens_of (snd kv) @ ts)
               = (case push (snd kv) st of None \<Rightarrow> None | Some s' \<Rightarrow> run s' ts)"
    proof -
      fix kv st m ts
      assume mem: "kv \<in> set kvs" and a: "accepts st" and vm: "value_mode m"
      obtain k v where kv: "kv = (k, v)" by (cases kv)
      from mem kv JObj.prems(1) have "json_safe v" by (auto simp: list_all_iff)
      with JObj.IH [of kv v st m ts] mem kv a vm
      show "run (st, m) (tokens_of (snd kv) @ ts)
               = (case push (snd kv) st of None \<Rightarrow> None | Some s' \<Rightarrow> run s' ts)"
        by simp
    qed
  qed
qed

lemma JSON_parse_json_text: "json_safe v \<Longrightarrow> JSON_parse (json_text v) = Some v"
proof -
  assume s: "json_safe v"
  from lex_json_text [OF s, of "[]"] have l: "lex (json_text v) = Some (tokens_of v)"
    by simp
  from run_tokens_of [OF s, of "[]" MValue "[]"]
  have r: "run ([], MValue) (tokens_of v) = Some ([], MDone v)"
    by (simp add: value_mode_def)
  from l r show ?thesis by (simp add: JSON_parse_def)
qed

section \<open>Schema-less round trip\<close>

lemma json_safe_update:
  assumes "json_safe (JObj kvs)" and "json_safe v"
  shows "json_safe (JObj (AList.update k v kvs))"
proof -
  from assms have d: "distinct (map fst (AList.update k v kvs))"
    by (simp add: distinct_update)
  from assms have "list_all (\<lambda>kv. json_safe (snd kv)) (AList.update k v kvs)"
    by (induction kvs) auto
  with d show ?thesis by simp
qed

lemma json_safe_stamped:
  assumes "json_safe (JObj data)"
  shows "json_safe (JObj (assign data [(''_id'', JStr ident), (''_createdAt'', JStr now),
                                        (''_updatedAt'', JStr now)]))"
  using assms by (simp add: assign_def json_safe_update del: json_safe.simps(8))

lemma find_append_fresh:
  assumes "list_all (\<lambda>r. \<not> P r) rs" and "P r"
  shows "find P (rs @ [r]) = Some r"
  using assms by (induction rs) auto

lemma obj_get_update: "obj_get (AList.update k v kvs) k' = (if k' = k then v else obj_get kvs k')"
  by (simp add: obj_get_def update_conv')

text \<open>
  Claim C8, as amended. With no schema set, on a connected store whose table is the one
  \<open>connect()\<close> creates, for every record that JSON carries as it is, a non-empty
  identifier that is not yet stored and any timestamp: \<open>set\<close> succeeds and returns the
  record with \<open>_id\<close>, \<open>_createdAt\<close> and \<open>_updatedAt\<close> set over it, and \<open>getOne\<close> on
  that \<open>_id\<close> returns this very record. Every other field of it is the field of the
  record given.
\<close>

theorem schemaless_round_trip:
  assumes "connected st" and "\<not> hybrid st" and "storage st = Some t"
    and "columns t = schemaless_columns" and "ident \<noteq> []" and "fresh_id ident t"
    and "json_safe (JObj data)"
  shows "(\<exists>st'. set_op ident now data st =
                 (Inr (assign data [(''_id'', JStr ident), (''_createdAt'', JStr now),
                                    (''_updatedAt'', JStr now)]), st')
             \<and> getOne [(''_id'', JStr ident)] st' =
                 Inr (JObj (assign data [(''_id'', JStr ident), (''_createdAt'', JStr now),
                                         (''_updatedAt'', JStr now)])))
       \<and> obj_get (assign data [(''_id'', JStr ident), (''_createdAt'', JStr now),
                               (''_updatedAt'', JStr now)]) k
         = (if k = ''_updatedAt'' then JStr now else if k = ''_createdAt'' then JStr now
            else if k = ''_id'' then JStr ident else obj_get data k)"
proof -
  let ?rec = "assign data [(''_id'', JStr ident), (''_createdAt'', JStr now),
                           (''_updatedAt'', JStr now)]"
  let ?text = "json_text (JObj ?rec)"
  let ?r = "[(''_id'', SqlText ident), (''_data'', SqlText ?text),
             (''_createdAt'', SqlText now), (''_updatedAt'', SqlText now)]"
  let ?t' = "t\<lparr>rows := rows t @ [?r]\<rparr>"
  have safe: "json_safe (JObj ?rec)" using assms(7) by (rule json_safe_stamped)
  have parse: "JSON_parse ?text = Some (JObj ?rec)"
    using safe by (rule JSON_parse_json_text)
  have fresh: "list_all (\<lambda>r. \<not> id_matches (SqlText ident) r) (rows t)"
    using assms(6)
    by (auto simp: fresh_id_def id_matches_def list_all_iff split: option.splits)
  have pk: "Some ident \<notin> (\<lambda>r'. sql_text (cell r' ''_id'')) ` set (rows t)"
  proof
    assume "Some ident \<in> (\<lambda>r'. sql_text (cell r' ''_id'')) ` set (rows t)"
    then obtain r' where "r' \<in> set (rows t)" and "sql_text (cell r' ''_id'') = Some ident"
      by force
    with assms(6) show False by (auto simp: fresh_id_def list_all_iff)
  qed
  have ins: "sql_insert [(''_id'', JStr ident), (''_data'', JSON_stringify (JObj ?rec)),
                         (''_createdAt'', JStr now), (''_updatedAt'', JStr now)] (Some t)
           = Inr ?t'"
    using assms(4) pk
    by (simp add: sql_insert_def prepare_on_def has_column_def schemaless_columns_def
          JSON_stringify_def star_row_def cell_def not_null_ok_def primary_key_ok_def)
  have set_eq: "set_op ident now data st = (Inr ?rec, st\<lparr>storage := Some ?t'\<rparr>)"
    using assms(1,2,3) ins by (simp add: set_op_def Let_def)
  have m: "id_matches (SqlText ident) ?r"
    by (simp add: id_matches_def cell_def)
  have f: "find (id_matches (SqlText ident)) (rows t @ [?r]) = Some ?r"
    using fresh m by (rule find_append_fresh)
  have pd: "parse_data (data_row ?r) = Inr (JObj ?rec)"
    using parse by (simp add: parse_data_def data_row_def row_object_def obj_get_def cell_def)
  have nh: "\<not> hybrid (st\<lparr>storage := Some ?t'\<rparr>)"
    using assms(2) by (simp add: hybrid_def)
  have sel: "sql_select_data_by_id (JStr ident) (Some ?t') = Inr (Some (data_row ?r))"
    using assms(4) f
    by (simp add: sql_select_data_by_id_def prepare_on_def has_column_def schemaless_columns_def
          del: json_text.simps)
  have get_eq: "getOne [(''_id'', JStr ident)] (st\<lparr>storage := Some ?t'\<rparr>) = Inr (JObj ?rec)"
    using assms(1,5) nh sel pd
    by (simp add: getOne_def obj_get_def del: json_text.simps)
  from set_eq get_eq
  have a: "\<exists>st'. set_op ident now data st = (Inr ?rec, st')
             \<and> getOne [(''_id'', JStr ident)] st' = Inr (JObj ?rec)"
    by blast
  have b: "obj_get ?rec k
         = (if k = ''_updatedAt'' then JStr now else if k = ''_createdAt'' then JStr now
            else if k = ''_id'' then JStr ident else obj_get data k)"
    by (simp add: assign_def obj_get_update)
  from a b show ?thesis by blast
qed

theorem schemaless_round_trip_witness:
  "\<exists>st'. set_op ''u3'' ''t2''
            [(''name'', JStr ''Omar''), (''tags'', JArr [JStr ''a'', JNum (- 12), JDec 15 1, JNull]),
             (''meta'', JObj [(''k'', JBool True)])] users_store
          = (Inr [(''name'', JStr ''Omar''), (''tags'', JArr [JStr ''a'', JNum (- 12), JDec 15 1, JNull]),
                  (''meta'', JObj [(''k'', JBool True)]), (''_id'', JStr ''u3''),
                  (''_createdAt'', JStr ''t2''), (''_updatedAt'', JStr ''t2'')], st')
        \<and> getOne [(''_id'', JStr ''u3'')] st'
          = Inr (JObj [(''name'', JStr ''Omar''), (''tags'', JArr [JStr ''a'', JNum (- 12), JDec 15 1, JNull]),
                  (''meta'', JObj [(''k'', JBool True)]), (''_id'', JStr ''u3''),
                  (''_createdAt'', JStr ''t2''), (''_updatedAt'', JStr ''t2'')])"
proof -
  let ?data = "[(''name'', JStr ''Omar''), (''tags'', JArr [JStr ''a'', JNum (- 12), JDec 15 1, JNull]),
             (''meta'', JObj [(''k'', JBool True)])]"
  have c: "connected users_store" by (simp add: users_store_def)
  have h: "\<not> hybrid users_store" by (simp add: users_store_def hybrid_def)
  have s: "storage users_store = Some users_table" by (simp add: users_store_def)
  have cols: "columns users_table = schemaless_columns" by (simp add: users_table_def)
  have i: "''u3'' \<noteq> []" by simp
  have f: "fresh_id ''u3'' users_table" by code_simp
  have j: "json_safe (JObj ?data)" by simp
  have r: "assign ?data [(''_id'', JStr ''u3''), (''_createdAt'', JStr ''t2''),
                         (''_updatedAt'', JStr ''t2'')]
         = [(''name'', JStr ''Omar''), (''tags'', JArr [JStr ''a'', JNum (- 12), JDec 15 1, JNull]),
            (''meta'', JObj [(''k'', JBool True)]), (''_id'', JStr ''u3''),
            (''_createdAt'', JStr ''t2''), (''_updatedAt'', JStr ''t2'')]"
    by (simp add: assign_def)
  from schemaless_round_trip [OF c h s cols i f j, of "''t2''" "''name''"]
  show ?thesis unfolding r by blast
qed

text \<open>
  The claim as stated fails for a record that JSON cannot carry: an \<open>undefined\<close>
  array element is read back as \<open>null\<close>, and a field whose value is \<open>undefined\<close> is
  read back missing.
\<close>

theorem schemaless_round_trip_counterexample:
  "fst (set_op ''u3'' ''t2'' [(''x'', JArr [JUndefined]), (''y'', JUndefined)] users_store)
     = Inr [(''x'', JArr [JUndefined]), (''y'', JUndefined), (''_id'', JStr ''u3''),
            (''_createdAt'', JStr ''t2''), (''_updatedAt'', JStr ''t2'')]
   \<and> getOne [(''_id'', JStr ''u3'')]
        (snd (set_op ''u3'' ''t2'' [(''x'', JArr [JUndefined]), (''y'', JUndefined)] users_store))
     = Inr (JObj [(''x'', JArr [JNull]), (''_id'', JStr ''u3''),
                  (''_createdAt'', JStr ''t2''), (''_updatedAt'', JStr ''t2'')])"
proof -
  have a: "fst (set_op ''u3'' ''t2'' [(''x'', JArr [JUndefined]), (''y'', JUndefined)] users_store)
     = Inr [(''x'', JArr [JUndefined]), (''y'', JUndefined), (''_id'', JStr ''u3''),
            (''_createdAt'', JStr ''t2''), (''_updatedAt'', JStr ''t2'')]"
    by code_simp
  have b: "getOne [(''_id'', JStr ''u3'')]
        (snd (set_op ''u3'' ''t2'' [(''x'', JArr [JUndefined]), (''y'', JUndefined)] users_store))
     = Inr (JObj [(''x'', JArr [JNull]), (''_id'', JStr ''u3''),
                  (''_createdAt'', JStr ''t2''), (''_updatedAt'', JStr ''t2'')])"
    by code_simp
  from a b show ?thesis by blast
qed

end
